theory Spec2Isabelle
  imports Main "HOL-Library.Sublist" "HOL-Library.Char_ord" "HOL-Library.List_Lexorder"
    "HOL-Library.Multiset"
begin

section \<open>The graph store of db.js\<close>

text \<open>
  The collections of \<^verbatim>\<open>db.js\<close> are lists of documents, in the order a scan
  \<^verbatim>\<open>FOR i IN coll\<close> visits them. An edge document carries \<^verbatim>\<open>_key\<close>,
  \<^verbatim>\<open>_from\<close>, \<^verbatim>\<open>_to\<close> and \<^verbatim>\<open>timestamp\<close>. Timestamps are integers
  (the request schema is \<^verbatim>\<open>Joi.number().integer()\<close>). Keys that the store generates
  itself are natural numbers; keys that the code supplies are strings.
\<close>

record edge =
  e_key :: nat
  e_from :: string
  e_to :: string
  e_timestamp :: int

record sponsorship =
  s_key :: nat
  s_from :: string
  s_to :: string

record group =
  g_key :: string
  g_score :: int
  g_isNew :: bool
  g_timestamp :: int
  g_founders :: "string list"

record user =
  u_key :: string
  u_score :: int

record ctx =
  c_key :: string
  c_totalSponsorships :: int

record link =
  v_key :: nat
  v_user :: string
  v_account :: string
  v_timestamp :: int

record db =
  connectionsColl :: "edge list"
  removedColl :: "edge list"
  groupsColl :: "group list"
  newGroupsColl :: "group list"
  usersInGroupsColl :: "edge list"
  usersInNewGroupsColl :: "edge list"
  usersColl :: "user list"
  contextsColl :: "ctx list"
  sponsorshipsColl :: "sponsorship list"

text \<open>A collection handed to a function as an argument is named by a tag.\<close>

datatype edge_coll = ConnectionsColl | RemovedColl | UsersInGroupsColl | UsersInNewGroupsColl

fun get_coll :: "edge_coll \<Rightarrow> db \<Rightarrow> edge list" where
  "get_coll ConnectionsColl d = connectionsColl d"
| "get_coll RemovedColl d = removedColl d"
| "get_coll UsersInGroupsColl d = usersInGroupsColl d"
| "get_coll UsersInNewGroupsColl d = usersInNewGroupsColl d"

fun put_coll :: "edge_coll \<Rightarrow> edge list \<Rightarrow> db \<Rightarrow> db" where
  "put_coll ConnectionsColl es d = d\<lparr>connectionsColl := es\<rparr>"
| "put_coll RemovedColl es d = d\<lparr>removedColl := es\<rparr>"
| "put_coll UsersInGroupsColl es d = d\<lparr>usersInGroupsColl := es\<rparr>"
| "put_coll UsersInNewGroupsColl es d = d\<lparr>usersInNewGroupsColl := es\<rparr>"

text \<open>
  An insert without \<^verbatim>\<open>_key\<close> gets a key from the store that no document of the
  collection has: here one above the largest key present.
\<close>

definition fresh_key :: "nat list \<Rightarrow> nat" where
  "fresh_key ks = Suc (foldr max ks 0)"

definition insert_edge :: "edge_coll \<Rightarrow> string \<Rightarrow> string \<Rightarrow> int \<Rightarrow> db \<Rightarrow> db" where
  "insert_edge c f t ts d =
     put_coll c (get_coll c d @
       [\<lparr>e_key = fresh_key (map e_key (get_coll c d)), e_from = f, e_to = t, e_timestamp = ts\<rparr>]) d"

text \<open>
  A document handle is the collection name, a slash and the key: \<^verbatim>\<open>'users/' + key\<close>
  is \<open>doc_id ''users'' key\<close>, and it is what \<^verbatim>\<open>_id\<close>, \<^verbatim>\<open>_from\<close> and
  \<^verbatim>\<open>_to\<close> hold.
\<close>

definition doc_id :: "string \<Rightarrow> string \<Rightarrow> string" where
  "doc_id collName key = collName @ ''/'' @ key"

text \<open>
  \<^verbatim>\<open>s.replace(pat, rep)\<close> with a string pattern replaces the leftmost occurrence only.
\<close>

fun str_replace :: "string \<Rightarrow> string \<Rightarrow> string \<Rightarrow> string" where
  "str_replace [] pat rep = (if pat = [] then rep else [])"
| "str_replace (c # cs) pat rep =
     (if prefix pat (c # cs) then rep @ drop (length pat) (c # cs)
      else c # str_replace cs pat rep)"

text \<open>
  \<^verbatim>\<open>RETURN DISTINCT\<close>, \<^verbatim>\<open>UNION_DISTINCT\<close>, \<^verbatim>\<open>new Set(..)\<close> and lodash's
  \<^verbatim>\<open>_.intersection\<close> keep one copy of each value, the first one met.
\<close>

fun uniq :: "'a list \<Rightarrow> 'a list" where
  "uniq [] = []"
| "uniq (x # xs) = x # filter (\<lambda>y. y \<noteq> x) (uniq xs)"

definition intersection :: "'a list \<Rightarrow> 'a list \<Rightarrow> 'a list" where
  "intersection xs ys = uniq (filter (\<lambda>x. x \<in> set ys) xs)"

section \<open>Connection ledger\<close>

text \<open>
  \<^verbatim>\<open>allEdges\<close>: the edges between two users in either direction, newest first, as
  pairs of key and timestamp.
\<close>

definition between :: "string \<Rightarrow> string \<Rightarrow> edge \<Rightarrow> bool" where
  "between user1 user2 i \<longleftrightarrow>
     (e_from i = user1 \<and> e_to i = user2) \<or> (e_from i = user2 \<and> e_to i = user1)"

definition allEdges :: "edge list \<Rightarrow> string \<Rightarrow> string \<Rightarrow> (nat \<times> int) list" where
  "allEdges collection user1 user2 =
     map (\<lambda>i. (e_key i, e_timestamp i))
       (sort_key (\<lambda>i. - e_timestamp i) (filter (between user1 user2) collection))"

definition removeByKeys :: "edge list \<Rightarrow> nat list \<Rightarrow> edge list" where
  "removeByKeys collection keys = filter (\<lambda>i. e_key i \<notin> set keys) collection"

definition updateAndCleanConnections :: "edge_coll \<Rightarrow> string \<Rightarrow> string \<Rightarrow> int \<Rightarrow> db \<Rightarrow> db" where
  "updateAndCleanConnections collection key1 key2 timestamp d =
     (let user1 = doc_id ''users'' key1;
          user2 = doc_id ''users'' key2;
          added = allEdges (connectionsColl d) user1 user2;
          removed = allEdges (removedColl d) user1 user2
      in if (added = [] \<or> timestamp > snd (hd added))
            \<and> (removed = [] \<or> timestamp > snd (hd removed))
         then
           let d1 = insert_edge collection user1 user2 timestamp d;
               d2 = (if added \<noteq> []
                     then d1\<lparr>connectionsColl := removeByKeys (connectionsColl d1) (map fst added)\<rparr>
                     else d1);
               d3 = (if removed \<noteq> []
                     then d2\<lparr>removedColl := removeByKeys (removedColl d2) (map fst removed)\<rparr>
                     else d2)
           in d3
         else d)"

definition addConnection :: "string \<Rightarrow> string \<Rightarrow> int \<Rightarrow> db \<Rightarrow> db" where
  "addConnection key1 key2 timestamp d =
     updateAndCleanConnections ConnectionsColl key1 key2 timestamp d"

definition removeConnection :: "string \<Rightarrow> string \<Rightarrow> int \<Rightarrow> db \<Rightarrow> db" where
  "removeConnection key1 key2 timestamp d =
     updateAndCleanConnections RemovedColl key1 key2 timestamp d"

text \<open>A request to the ledger, and a sequence of requests handled one after the other.\<close>

datatype call = AddConnection string string int | RemoveConnection string string int

fun call_kind :: "call \<Rightarrow> edge_coll" where
  "call_kind (AddConnection _ _ _) = ConnectionsColl"
| "call_kind (RemoveConnection _ _ _) = RemovedColl"

fun call_timestamp :: "call \<Rightarrow> int" where
  "call_timestamp (AddConnection _ _ ts) = ts"
| "call_timestamp (RemoveConnection _ _ ts) = ts"

fun call_keys :: "call \<Rightarrow> string \<times> string" where
  "call_keys (AddConnection k1 k2 _) = (k1, k2)"
| "call_keys (RemoveConnection k1 k2 _) = (k1, k2)"

fun run_call :: "call \<Rightarrow> db \<Rightarrow> db" where
  "run_call (AddConnection k1 k2 ts) d = addConnection k1 k2 ts d"
| "run_call (RemoveConnection k1 k2 ts) d = removeConnection k1 k2 ts d"

fun run_calls :: "call list \<Rightarrow> db \<Rightarrow> db" where
  "run_calls [] d = d"
| "run_calls (c # cs) d = run_calls cs (run_call c d)"

text \<open>
  The live records of a pair of users: the kind and timestamp of every edge between them,
  in the connections collection and then in the removed collection.
\<close>

definition live_records :: "db \<Rightarrow> string \<Rightarrow> string \<Rightarrow> (edge_coll \<times> int) list" where
  "live_records d a b =
     map (\<lambda>i. (ConnectionsColl, e_timestamp i))
       (filter (between (doc_id ''users'' a) (doc_id ''users'' b)) (connectionsColl d))
     @ map (\<lambda>i. (RemovedColl, e_timestamp i))
       (filter (between (doc_id ''users'' a) (doc_id ''users'' b)) (removedColl d))"

definition on_pair :: "string \<Rightarrow> string \<Rightarrow> call \<Rightarrow> bool" where
  "on_pair a b c \<longleftrightarrow> call_keys c = (a, b) \<or> call_keys c = (b, a)"

definition distinct_keys :: "db \<Rightarrow> bool" where
  "distinct_keys d \<longleftrightarrow>
     distinct (map e_key (connectionsColl d)) \<and> distinct (map e_key (removedColl d))"

definition empty_db :: db where
  "empty_db = \<lparr>connectionsColl = [], removedColl = [], groupsColl = [], newGroupsColl = [],
     usersInGroupsColl = [], usersInNewGroupsColl = [], usersColl = [], contextsColl = [],
     sponsorshipsColl = []\<rparr>"

text \<open>
  The arbitration test of \<^verbatim>\<open>updateAndCleanConnections\<close> read on the records
  themselves: the timestamp is strictly above that of every record of either kind between
  the two users, which is the same as above the newest record of each kind.
\<close>

definition newer_than_all :: "db \<Rightarrow> string \<Rightarrow> string \<Rightarrow> int \<Rightarrow> bool" where
  "newer_than_all d user1 user2 timestamp \<longleftrightarrow>
     (\<forall>i\<in>set (connectionsColl d). between user1 user2 i \<longrightarrow> e_timestamp i < timestamp)
   \<and> (\<forall>i\<in>set (removedColl d). between user1 user2 i \<longrightarrow> e_timestamp i < timestamp)"

text \<open>The same rule as a register over the list of live records of one pair.\<close>

definition lww :: "(edge_coll \<times> int) list \<Rightarrow> call \<Rightarrow> (edge_coll \<times> int) list" where
  "lww rs c = (if \<forall>r\<in>set rs. snd r < call_timestamp c
               then [(call_kind c, call_timestamp c)] else rs)"

definition ledger_example :: db where
  "ledger_example = empty_db\<lparr>connectionsColl :=
     [\<lparr>e_key = 1, e_from = ''users/a'', e_to = ''users/c'', e_timestamp = 3\<rparr>]\<rparr>"

section \<open>Users, connections and group membership\<close>

datatype error = DuplicateGroup | NotConnected | KeyConflict | GroupNotFound | AccessDenied
  | NotEligible | ReferenceError | TypeError | IllegalKey

definition userConnectionsRaw :: "string \<Rightarrow> db \<Rightarrow> string list" where
  "userConnectionsRaw userId d =
     (let user = doc_id ''users'' userId;
          userConnections1 = map e_to (filter (\<lambda>c. e_from c = user) (connectionsColl d));
          userConnections2 = map e_from (filter (\<lambda>c. e_to c = user) (connectionsColl d))
      in uniq (userConnections1 @ userConnections2))"

definition userConnections :: "string \<Rightarrow> db \<Rightarrow> string list" where
  "userConnections userId d =
     map (\<lambda>u. str_replace u ''users/'' []) (userConnectionsRaw userId d)"

definition groupMembers :: "string \<Rightarrow> bool \<Rightarrow> db \<Rightarrow> string list" where
  "groupMembers groupId isNew d =
     (let key = (if isNew then doc_id ''newGroups'' groupId else doc_id ''groups'' groupId);
          collection = (if isNew then usersInNewGroupsColl d else usersInGroupsColl d)
      in map (\<lambda>m. str_replace m ''users/'' [])
           (uniq (map e_from (filter (\<lambda>i. e_to i = key) collection))))"

definition isEligible :: "string \<Rightarrow> string \<Rightarrow> db \<Rightarrow> bool" where
  "isEligible groupId userId d =
     (let userCons = userConnections userId d;
          groupMems = groupMembers groupId False d;
          count = length (intersection userCons groupMems)
      in count * 2 > length groupMems)"

text \<open>
  \<^verbatim>\<open>loadUser\<close> is \<^verbatim>\<open>DOCUMENT(users, id)\<close>: the identifier is a document key
  or a document handle, and the result is the user with that key, or whose handle
  \<^verbatim>\<open>users/<key>\<close> it is, or null.
  In \<^verbatim>\<open>createUser\<close> the branch for an existing user reads \<^verbatim>\<open>currents[0]\<close>, a
  name that is bound nowhere in the strict-mode module, so evaluating it throws a
  ReferenceError. On the other branch \<^verbatim>\<open>usersColl.save\<close> stores the key as
  \<^verbatim>\<open>_key\<close>; the store refuses a string that is not a legal document key. Which strings
  are legal is the store's rule and an argument here. The save cannot meet an existing key,
  since the lookup has found none.
\<close>

definition loadUser :: "string \<Rightarrow> db \<Rightarrow> user option" where
  "loadUser uid d =
     (case filter (\<lambda>u. u_key u = uid \<or> doc_id ''users'' (u_key u) = uid) (usersColl d) of
        [] \<Rightarrow> None
      | u # _ \<Rightarrow> Some u)"

definition createUser :: "(string \<Rightarrow> bool) \<Rightarrow> string \<Rightarrow> db \<Rightarrow> error + (db \<times> user)" where
  "createUser legalKey key d =
     (case loadUser key d of
        Some user \<Rightarrow> Inl ReferenceError
      | None \<Rightarrow>
          if legalKey key
          then Inr (d\<lparr>usersColl := usersColl d @ [\<lparr>u_key = key, u_score = 0\<rparr>]\<rparr>,
                    \<lparr>u_key = key, u_score = 0\<rparr>)
          else Inl IllegalKey)"

definition addUserToGroup :: "edge_coll \<Rightarrow> string \<Rightarrow> string \<Rightarrow> int \<Rightarrow> string \<Rightarrow> db \<Rightarrow> db" where
  "addUserToGroup collection groupId key timestamp groupCollName d =
     (let user = doc_id ''users'' key;
          group0 = doc_id groupCollName groupId
      in insert_edge collection user group0 timestamp d)"

text \<open>
  \<^verbatim>\<open>createGroup\<close>. The group id is \<^verbatim>\<open>safe(randomBytes(9).toString('base64'))\<close>;
  the random value is an argument here. \<^verbatim>\<open>newGroupsColl.save\<close> with a key that the
  collection already holds is refused by the store. \<^verbatim>\<open>[user1, user2, user3].sort()\<close>
  orders the strings by their code units. The function returns the saved document's key.
\<close>

definition isDuplicate :: "string \<Rightarrow> string \<Rightarrow> string \<Rightarrow> group list \<Rightarrow> bool" where
  "isDuplicate user1 user2 user3 collection =
     (length (take 1 (filter (\<lambda>i. user1 \<in> set (g_founders i) \<and> user2 \<in> set (g_founders i)
        \<and> user3 \<in> set (g_founders i)) collection)) > 0)"

definition createGroup ::
  "string \<Rightarrow> string \<Rightarrow> string \<Rightarrow> int \<Rightarrow> string \<Rightarrow> db \<Rightarrow> error + (db \<times> string)" where
  "createGroup key1 key2 key3 timestamp groupId d =
     (let user1 = doc_id ''users'' key1;
          user2 = doc_id ''users'' key2;
          user3 = doc_id ''users'' key3;
          founders = sort [user1, user2, user3]
      in if isDuplicate user1 user2 user3 (newGroupsColl d)
            \<or> isDuplicate user1 user2 user3 (groupsColl d)
         then Inl DuplicateGroup
         else
           let conns = userConnections key1 d
           in if key2 \<notin> set conns \<or> key3 \<notin> set conns then Inl NotConnected
              else if groupId \<in> set (map g_key (newGroupsColl d)) then Inl KeyConflict
              else
                let d1 = d\<lparr>newGroupsColl := newGroupsColl d @
                           [\<lparr>g_key = groupId, g_score = 0, g_isNew = True,
                             g_timestamp = timestamp, g_founders = founders\<rparr>]\<rparr>
                in Inr (addUserToGroup UsersInNewGroupsColl groupId key1 timestamp ''newGroups'' d1,
                        groupId))"

text \<open>
  \<^verbatim>\<open>addMembership\<close>. The loop over the forming group's edges saves one edge in
  \<^verbatim>\<open>usersInGroups\<close> and removes the forming edge by key, edge after edge. The save into
  \<^verbatim>\<open>groups\<close> reuses the forming group's key, which is the requested id, and is reached
  only when \<^verbatim>\<open>groups\<close> holds no document of that key.
\<close>

fun migrate :: "edge list \<Rightarrow> db \<Rightarrow> db" where
  "migrate [] d = d"
| "migrate (doc # docs) d =
     migrate docs
       (let d1 = insert_edge UsersInGroupsColl (e_from doc)
                   (str_replace (e_to doc) ''newGroups'' ''groups'') (e_timestamp doc) d
        in d1\<lparr>usersInNewGroupsColl :=
                filter (\<lambda>i. e_key i \<noteq> e_key doc) (usersInNewGroupsColl d1)\<rparr>)"

definition addMembership :: "string \<Rightarrow> string \<Rightarrow> int \<Rightarrow> db \<Rightarrow> error + db" where
  "addMembership groupId key timestamp d =
     (let groups0 = filter (\<lambda>i. g_key i = groupId) (groupsColl d);
          user = doc_id ''users'' key;
          isNew = (groups0 = []);
          groups1 = (if isNew then filter (\<lambda>i. g_key i = groupId) (newGroupsColl d) else groups0)
      in case groups1 of
           [] \<Rightarrow> Inl GroupNotFound
         | group0 # _ \<Rightarrow>
             if isNew \<and> user \<notin> set (g_founders group0) then Inl AccessDenied
             else if isNew then
               let d1 = addUserToGroup UsersInNewGroupsColl groupId key timestamp ''newGroups'' d;
                   grp = doc_id ''newGroups'' groupId;
                   groupMembers0 = filter (\<lambda>i. e_to i = grp) (usersInNewGroupsColl d1);
                   memberIds = uniq (map e_from groupMembers0)
               in if length memberIds = length (g_founders group0) then
                    let d2 = d1\<lparr>groupsColl := groupsColl d1 @
                                 [\<lparr>g_key = g_key group0, g_score = 0, g_isNew = False,
                                   g_timestamp = g_timestamp group0,
                                   g_founders = g_founders group0\<rparr>]\<rparr>;
                        d3 = migrate groupMembers0 d2
                    in Inr (d3\<lparr>newGroupsColl :=
                                 filter (\<lambda>i. g_key i \<noteq> g_key group0) (newGroupsColl d3)\<rparr>)
                  else Inr d1
             else if isEligible groupId key d
               then Inr (addUserToGroup UsersInGroupsColl groupId key timestamp ''groups'' d)
               else Inl NotEligible)"

section \<open>Eligible groups of a user\<close>

text \<open>
  \<^verbatim>\<open>COLLECT g = .. WITH COUNT INTO count\<close>: one row per value, with the number of
  rows that carry it. \<^verbatim>\<open>SORT count DESC\<close> is taken stable. The query of
  \<^verbatim>\<open>loadGroups\<close> has no \<^verbatim>\<open>SORT\<close>: it is a scan of the groups collection
  with a filter, and returns the groups in the order of the collection.
\<close>

definition collect_count :: "string list \<Rightarrow> (string \<times> nat) list" where
  "collect_count xs = map (\<lambda>g. (g, length (filter (\<lambda>x. x = g) xs))) (uniq xs)"

record group_dic =
  d_isNew :: bool
  d_score :: int
  d_id :: string
  d_knownMembers :: "string list"
  d_founders :: "string list"

definition groupToDic :: "group \<Rightarrow> string list \<Rightarrow> db \<Rightarrow> group_dic" where
  "groupToDic group0 knownMembers0 d =
     (let founders = map (\<lambda>u. str_replace u ''users/'' []) (g_founders group0);
          knownMembers = (if g_isNew group0 then groupMembers (g_key group0) True d
                          else map (\<lambda>m. str_replace m ''users/'' []) knownMembers0)
      in \<lparr>d_isNew = g_isNew group0, d_score = g_score group0, d_id = g_key group0,
          d_knownMembers = knownMembers, d_founders = founders\<rparr>)"

definition loadGroups :: "string list \<Rightarrow> string list \<Rightarrow> string \<Rightarrow> db \<Rightarrow> group_dic list" where
  "loadGroups groupIds connections myUserId d =
     (let me = doc_id ''users'' myUserId
      in map (\<lambda>g.
            let members = uniq (take 3 (map e_from (filter
                  (\<lambda>m. e_to m = doc_id ''groups'' (g_key g) \<and> e_from m \<in> set connections)
                  (usersInGroupsColl d))));
                me1 = take 1 (map e_from (filter
                  (\<lambda>m. e_to m = doc_id ''groups'' (g_key g) \<and> e_from m = me)
                  (usersInGroupsColl d)))
            in groupToDic g (members @ me1) d)
          (filter (\<lambda>g. doc_id ''groups'' (g_key g) \<in> set groupIds) (groupsColl d)))"

definition candidates_of :: "string list \<Rightarrow> string list \<Rightarrow> db \<Rightarrow> (string \<times> nat) list" where
  "candidates_of connections currentGroups d =
     sort_key (\<lambda>r. - int (snd r))
       (filter (\<lambda>r. snd r \<ge> 2)
         (collect_count (map e_to (filter
            (\<lambda>edge. e_from edge \<in> set connections \<and> e_to edge \<notin> set currentGroups)
            (usersInGroupsColl d)))))"

definition userEligibleGroups :: "string \<Rightarrow> string list \<Rightarrow> string list \<Rightarrow> db \<Rightarrow> group_dic list" where
  "userEligibleGroups userId connections currentGroups d =
     (let candidates = candidates_of connections currentGroups d;
          groupIds = map fst candidates;
          groupCounts = collect_count (map e_to (filter (\<lambda>ug. e_to ug \<in> set groupIds)
                          (usersInGroupsColl d)));
          groupCountsDic = foldl (\<lambda>dic row. dic(fst row \<mapsto> snd row)) Map.empty groupCounts;
          eligibles = map fst (filter
             (\<lambda>g. case groupCountsDic (fst g) of None \<Rightarrow> False | Some n \<Rightarrow> snd g * 2 > n)
             candidates)
      in loadGroups eligibles connections userId d)"

section \<open>Sponsorships\<close>

definition sponsor :: "string \<Rightarrow> string \<Rightarrow> db \<Rightarrow> db" where
  "sponsor key0 context0 d =
     (let key = doc_id ''users'' key0;
          context = doc_id ''contexts'' context0
      in d\<lparr>sponsorshipsColl := sponsorshipsColl d @
           [\<lparr>s_key = fresh_key (map s_key (sponsorshipsColl d)), s_from = key, s_to = context\<rparr>]\<rparr>)"

text \<open>
  \<^verbatim>\<open>getContext\<close> returns the context document with \<^verbatim>\<open>unusedSponsorships\<close> added;
  on a missing context the assignment to a field of null throws.
\<close>

definition usedSponsorships :: "string \<Rightarrow> db \<Rightarrow> nat" where
  "usedSponsorships context0 d =
     length (filter (\<lambda>s. s_to s = doc_id ''contexts'' context0) (sponsorshipsColl d))"

definition getContext :: "string \<Rightarrow> db \<Rightarrow> error + (ctx \<times> int)" where
  "getContext context0 d =
     (case filter (\<lambda>c. c_key c = context0) (contextsColl d) of
        [] \<Rightarrow> Inl TypeError
      | res # _ \<Rightarrow> Inr (res, c_totalSponsorships res - int (usedSponsorships context0 d)))"

section \<open>Account links\<close>

text \<open>
  \<^verbatim>\<open>revocableIds\<close> is one query over the context's collection of links. The sort by
  descending timestamp is taken stable.
\<close>

definition latest :: "link list \<Rightarrow> link \<Rightarrow> nat list" where
  "latest collection u2 =
     take 1 (map v_key (sort_key (\<lambda>u3. - v_timestamp u3)
       (filter (\<lambda>u3. v_user u3 = v_user u2) collection)))"

definition inUse :: "link list \<Rightarrow> link \<Rightarrow> nat list" where
  "inUse collection u =
     take 1 (map (\<lambda>_. 1) (filter
       (\<lambda>u2. v_account u2 = v_account u \<and> v_user u2 \<noteq> v_user u
          \<and> (case latest collection u2 of [] \<Rightarrow> False | k # _ \<Rightarrow> k = v_key u2))
       collection))"

definition revocableIds :: "link list \<Rightarrow> string \<Rightarrow> string \<Rightarrow> string list" where
  "revocableIds collection aid user =
     map v_account (filter
       (\<lambda>u. v_account u \<noteq> aid \<and> v_user u = user \<and> length (inUse collection u) = 0)
       collection)"

section \<open>Notions used in the statements\<close>

text \<open>
  The users that have a forming membership edge to a group once the user with the given key
  has joined it: the handles whose number \<^verbatim>\<open>addMembership\<close> compares with the number
  of founders.
\<close>

definition joined_after :: "string \<Rightarrow> string \<Rightarrow> db \<Rightarrow> string set" where
  "joined_after groupId key d =
     insert (doc_id ''users'' key)
       (set (map e_from (filter (\<lambda>i. e_to i = doc_id ''newGroups'' groupId)
          (usersInNewGroupsColl d))))"

text \<open>
  Two users are connected, per the ledger, when the connections collection holds an edge between
  their handles, in either direction.
\<close>

definition connected :: "db \<Rightarrow> string \<Rightarrow> string \<Rightarrow> bool" where
  "connected d key1 key2 \<longleftrightarrow>
     (\<exists>e\<in>set (connectionsColl d). between (doc_id ''users'' key1) (doc_id ''users'' key2) e)"

text \<open>
  Some forming or established group has the three users as its founders, in whatever order
  they are named.
\<close>

definition same_founders :: "db \<Rightarrow> string \<Rightarrow> string \<Rightarrow> string \<Rightarrow> bool" where
  "same_founders d key1 key2 key3 \<longleftrightarrow>
     (\<exists>g\<in>set (newGroupsColl d) \<union> set (groupsColl d).
        set (g_founders g) = {doc_id ''users'' key1, doc_id ''users'' key2, doc_id ''users'' key3})"

text \<open>
  The members of an established group: the users whose handle has a membership edge to the
  group's handle. The connections of a user: the users whose handle shares a connection edge
  with the user's handle, in either direction.
\<close>

definition members_of :: "db \<Rightarrow> string \<Rightarrow> string set" where
  "members_of d groupId =
     {k. \<exists>e\<in>set (usersInGroupsColl d).
           e_to e = doc_id ''groups'' groupId \<and> e_from e = doc_id ''users'' k}"

definition connections_of :: "db \<Rightarrow> string \<Rightarrow> string set" where
  "connections_of d userId =
     {k. \<exists>e\<in>set (connectionsColl d).
           between (doc_id ''users'' userId) (doc_id ''users'' k) e}"

text \<open>
  A link is the newest of its user when no link of that user in the collection has a later
  timestamp.
\<close>

definition newest_link :: "link list \<Rightarrow> link \<Rightarrow> bool" where
  "newest_link coll v \<longleftrightarrow>
     (\<forall>w\<in>set coll. v_user w = v_user v \<longrightarrow> v_timestamp w \<le> v_timestamp v)"

text \<open>
  A rule for legal document keys, for the examples: not empty and without a slash.
\<close>

definition slash_free :: "string \<Rightarrow> bool" where
  "slash_free key \<longleftrightarrow> key \<noteq> [] \<and> CHR ''/'' \<notin> set key"

section \<open>Example stores\<close>

text \<open>
  Concrete stores and link collections on which the statements below are evaluated. They use
  the handles the code writes: \<^verbatim>\<open>users/..\<close>, \<^verbatim>\<open>groups/..\<close> and
  \<^verbatim>\<open>newGroups/..\<close>.
\<close>

definition eligible_example :: db where
  "eligible_example = empty_db\<lparr>
     connectionsColl := [
       \<lparr>e_key = 1, e_from = ''users/u'', e_to = ''users/m1'', e_timestamp = 1\<rparr>,
       \<lparr>e_key = 2, e_from = ''users/m2'', e_to = ''users/u'', e_timestamp = 2\<rparr>,
       \<lparr>e_key = 3, e_from = ''users/w'', e_to = ''users/m1'', e_timestamp = 3\<rparr>,
       \<lparr>e_key = 4, e_from = ''users/w'', e_to = ''users/m2'', e_timestamp = 4\<rparr>,
       \<lparr>e_key = 5, e_from = ''users/m3'', e_to = ''users/w'', e_timestamp = 5\<rparr>,
       \<lparr>e_key = 6, e_from = ''users/w'', e_to = ''users/x'', e_timestamp = 6\<rparr>],
     usersInGroupsColl := [
       \<lparr>e_key = 1, e_from = ''users/m1'', e_to = ''groups/g'', e_timestamp = 1\<rparr>,
       \<lparr>e_key = 2, e_from = ''users/m2'', e_to = ''groups/g'', e_timestamp = 1\<rparr>,
       \<lparr>e_key = 3, e_from = ''users/m3'', e_to = ''groups/g'', e_timestamp = 1\<rparr>,
       \<lparr>e_key = 4, e_from = ''users/m4'', e_to = ''groups/g'', e_timestamp = 2\<rparr>,
       \<lparr>e_key = 5, e_from = ''users/m1'', e_to = ''groups/h'', e_timestamp = 2\<rparr>]\<rparr>"

definition users_example :: db where
  "users_example = empty_db\<lparr>usersColl := [\<lparr>u_key = ''k1'', u_score = 40\<rparr>]\<rparr>"

definition sponsor_example :: db where
  "sponsor_example = empty_db\<lparr>contextsColl := [\<lparr>c_key = ''c'', c_totalSponsorships = 1\<rparr>]\<rparr>"

definition links_in_use :: "link list" where
  "links_in_use =
     [\<lparr>v_key = 1, v_user = ''U'', v_account = ''X'', v_timestamp = 1\<rparr>,
      \<lparr>v_key = 2, v_user = ''U'', v_account = ''Y'', v_timestamp = 2\<rparr>,
      \<lparr>v_key = 3, v_user = ''V'', v_account = ''X'', v_timestamp = 1\<rparr>]"

definition links_abandoned :: "link list" where
  "links_abandoned =
     [\<lparr>v_key = 1, v_user = ''U'', v_account = ''X'', v_timestamp = 1\<rparr>,
      \<lparr>v_key = 2, v_user = ''U'', v_account = ''Y'', v_timestamp = 2\<rparr>,
      \<lparr>v_key = 3, v_user = ''V'', v_account = ''X'', v_timestamp = 1\<rparr>,
      \<lparr>v_key = 4, v_user = ''V'', v_account = ''Z'', v_timestamp = 5\<rparr>]"

definition promote_example :: db where
  "promote_example = empty_db\<lparr>
     newGroupsColl := [\<lparr>g_key = ''gid'', g_score = 7, g_isNew = True, g_timestamp = 1,
        g_founders = [''users/a'', ''users/b'', ''users/c'']\<rparr>],
     usersInNewGroupsColl := [
       \<lparr>e_key = 1, e_from = ''users/a'', e_to = ''newGroups/gid'', e_timestamp = 1\<rparr>,
       \<lparr>e_key = 2, e_from = ''users/b'', e_to = ''newGroups/gid'', e_timestamp = 4\<rparr>]\<rparr>"

definition create_example :: db where
  "create_example = empty_db\<lparr>
     connectionsColl := [
       \<lparr>e_key = 1, e_from = ''users/b'', e_to = ''users/a'', e_timestamp = 1\<rparr>,
       \<lparr>e_key = 2, e_from = ''users/b'', e_to = ''users/c'', e_timestamp = 2\<rparr>,
       \<lparr>e_key = 3, e_from = ''users/d'', e_to = ''users/b'', e_timestamp = 3\<rparr>],
     groupsColl := [\<lparr>g_key = ''g0'', g_score = 0, g_isNew = False, g_timestamp = 1,
        g_founders = [''users/b'', ''users/c'', ''users/d'']\<rparr>]\<rparr>"

definition rank_example :: db where
  "rank_example = empty_db\<lparr>
     groupsColl := [
       \<lparr>g_key = ''g1'', g_score = 0, g_isNew = False, g_timestamp = 1,
         g_founders = [''users/a'', ''users/b'', ''users/c'']\<rparr>,
       \<lparr>g_key = ''g2'', g_score = 0, g_isNew = False, g_timestamp = 2,
         g_founders = [''users/a'', ''users/b'', ''users/d'']\<rparr>],
     usersInGroupsColl := [
       \<lparr>e_key = 1, e_from = ''users/a'', e_to = ''groups/g1'', e_timestamp = 1\<rparr>,
       \<lparr>e_key = 2, e_from = ''users/b'', e_to = ''groups/g1'', e_timestamp = 1\<rparr>,
       \<lparr>e_key = 3, e_from = ''users/c'', e_to = ''groups/g1'', e_timestamp = 1\<rparr>,
       \<lparr>e_key = 4, e_from = ''users/a'', e_to = ''groups/g2'', e_timestamp = 2\<rparr>,
       \<lparr>e_key = 5, e_from = ''users/b'', e_to = ''groups/g2'', e_timestamp = 2\<rparr>,
       \<lparr>e_key = 6, e_from = ''users/d'', e_to = ''groups/g2'', e_timestamp = 2\<rparr>]\<rparr>"

definition rejoined_example :: db where
  "rejoined_example = empty_db\<lparr>
     connectionsColl := [
       \<lparr>e_key = 1, e_from = ''users/a'', e_to = ''users/b'', e_timestamp = 1\<rparr>,
       \<lparr>e_key = 2, e_from = ''users/a'', e_to = ''users/c'', e_timestamp = 1\<rparr>,
       \<lparr>e_key = 3, e_from = ''users/u'', e_to = ''users/a'', e_timestamp = 2\<rparr>],
     groupsColl := [
       \<lparr>g_key = ''g3'', g_score = 0, g_isNew = False, g_timestamp = 1,
         g_founders = [''users/a'', ''users/b'', ''users/c'']\<rparr>],
     usersInGroupsColl := [
       \<lparr>e_key = 1, e_from = ''users/a'', e_to = ''groups/g3'', e_timestamp = 1\<rparr>,
       \<lparr>e_key = 2, e_from = ''users/b'', e_to = ''groups/g3'', e_timestamp = 2\<rparr>,
       \<lparr>e_key = 3, e_from = ''users/c'', e_to = ''groups/g3'', e_timestamp = 3\<rparr>]\<rparr>"

definition rejoined_twice :: db where
  "rejoined_twice = rejoined_example\<lparr>usersInGroupsColl :=
     usersInGroupsColl rejoined_example @
       [\<lparr>e_key = 4, e_from = ''users/a'', e_to = ''groups/g3'', e_timestamp = 7\<rparr>,
        \<lparr>e_key = 5, e_from = ''users/a'', e_to = ''groups/g3'', e_timestamp = 8\<rparr>]\<rparr>"

definition ledger_pair_example :: db where
  "ledger_pair_example = empty_db\<lparr>
     connectionsColl :=
       [\<lparr>e_key = 1, e_from = ''users/a'', e_to = ''users/c'', e_timestamp = 3\<rparr>,
        \<lparr>e_key = 2, e_from = ''users/b'', e_to = ''users/a'', e_timestamp = 6\<rparr>]\<rparr>"

definition links_low_tie :: "link list" where
  "links_low_tie =
     [\<lparr>v_key = 1, v_user = ''U'', v_account = ''X'', v_timestamp = 1\<rparr>,
      \<lparr>v_key = 2, v_user = ''U'', v_account = ''Q'', v_timestamp = 1\<rparr>,
      \<lparr>v_key = 3, v_user = ''U'', v_account = ''Y'', v_timestamp = 2\<rparr>,
      \<lparr>v_key = 4, v_user = ''V'', v_account = ''Z'', v_timestamp = 5\<rparr>]"

definition links_tie_a :: "link list" where
  "links_tie_a =
     [\<lparr>v_key = 1, v_user = ''U'', v_account = ''X'', v_timestamp = 1\<rparr>,
      \<lparr>v_key = 2, v_user = ''U'', v_account = ''Y'', v_timestamp = 2\<rparr>,
      \<lparr>v_key = 3, v_user = ''V'', v_account = ''Z'', v_timestamp = 5\<rparr>,
      \<lparr>v_key = 4, v_user = ''V'', v_account = ''X'', v_timestamp = 5\<rparr>]"

definition links_tie_b :: "link list" where
  "links_tie_b =
     [\<lparr>v_key = 1, v_user = ''U'', v_account = ''X'', v_timestamp = 1\<rparr>,
      \<lparr>v_key = 2, v_user = ''U'', v_account = ''Y'', v_timestamp = 2\<rparr>,
      \<lparr>v_key = 4, v_user = ''V'', v_account = ''X'', v_timestamp = 5\<rparr>,
      \<lparr>v_key = 3, v_user = ''V'', v_account = ''Z'', v_timestamp = 5\<rparr>]"

section \<open>Properties of the connection ledger\<close>

lemma fresh_key_gt: "k \<in> set ks \<Longrightarrow> k < fresh_key ks"
  unfolding fresh_key_def by (induction ks) (auto simp: less_Suc_eq_le max_def)

lemma between_sym: "between u1 u2 = between u2 u1"
  by (auto simp: between_def fun_eq_iff)

lemma allEdges_Nil: "allEdges es u1 u2 = [] \<longleftrightarrow> filter (between u1 u2) es = []"
  unfolding allEdges_def by (metis map_is_Nil_conv set_empty set_sort)

lemma set_keys_allEdges: "set (map fst (allEdges es u1 u2)) = e_key ` {i \<in> set es. between u1 u2 i}"
  unfolding allEdges_def by (auto simp: image_iff)

lemma hd_sorted_least: "sorted (map g ys) \<Longrightarrow> y \<in> set ys \<Longrightarrow> g (hd ys) \<le> g y"
  by (cases ys) auto

lemma newest_first:
  "allEdges es u1 u2 \<noteq> [] \<Longrightarrow>
     (timestamp > snd (hd (allEdges es u1 u2))) \<longleftrightarrow> (\<forall>i\<in>set es. between u1 u2 i \<longrightarrow> e_timestamp i < timestamp)"
proof -
  let ?ys = "sort_key (\<lambda>i. - e_timestamp i) (filter (between u1 u2) es)"
  assume ne: "allEdges es u1 u2 \<noteq> []"
  then have ys: "?ys \<noteq> []" by (simp add: allEdges_def)
  have hd_eq: "snd (hd (allEdges es u1 u2)) = e_timestamp (hd ?ys)"
    using ys by (simp add: allEdges_def hd_map)
  have "hd ?ys \<in> set ?ys" using ys by (rule hd_in_set)
  then have "hd ?ys \<in> set (filter (between u1 u2) es)" by (simp only: set_sort)
  then have hd_es: "hd ?ys \<in> set es \<and> between u1 u2 (hd ?ys)" by simp
  have least: "e_timestamp y \<le> e_timestamp (hd ?ys)" if "y \<in> set ?ys" for y
    using hd_sorted_least [of "\<lambda>i. - e_timestamp i" ?ys y] that by simp
  show ?thesis
  proof
    assume "timestamp > snd (hd (allEdges es u1 u2))"
    then show "\<forall>i\<in>set es. between u1 u2 i \<longrightarrow> e_timestamp i < timestamp"
      using least hd_eq by fastforce
  next
    assume "\<forall>i\<in>set es. between u1 u2 i \<longrightarrow> e_timestamp i < timestamp"
    then show "timestamp > snd (hd (allEdges es u1 u2))"
      using hd_es hd_eq by auto
  qed
qed

lemma newer_iff:
  "(allEdges es u1 u2 = [] \<or> timestamp > snd (hd (allEdges es u1 u2)))
     \<longleftrightarrow> (\<forall>i\<in>set es. between u1 u2 i \<longrightarrow> e_timestamp i < timestamp)"
proof (cases "allEdges es u1 u2 = []")
  case True
  then show ?thesis by (auto simp: allEdges_Nil filter_empty_conv)
next
  case False
  then show ?thesis using newest_first [OF False] by simp
qed

lemma removeByKeys_allEdges:
  assumes "distinct (map e_key es)"
  shows "removeByKeys es (map fst (allEdges es u1 u2)) = filter (\<lambda>i. \<not> between u1 u2 i) es"
  unfolding removeByKeys_def set_keys_allEdges
proof (rule filter_cong [OF refl])
  fix x assume x: "x \<in> set es"
  show "(e_key x \<notin> e_key ` {i \<in> set es. between u1 u2 i}) = (\<not> between u1 u2 x)"
  proof
    assume "e_key x \<notin> e_key ` {i \<in> set es. between u1 u2 i}"
    then show "\<not> between u1 u2 x" using x by blast
  next
    assume nb: "\<not> between u1 u2 x"
    show "e_key x \<notin> e_key ` {i \<in> set es. between u1 u2 i}"
    proof
      assume "e_key x \<in> e_key ` {i \<in> set es. between u1 u2 i}"
      then obtain i where i: "i \<in> set es" "between u1 u2 i" "e_key x = e_key i" by blast
      from assms x i(1) i(3) have "x = i" by (simp add: distinct_map inj_on_def)
      with nb i(2) show False by simp
    qed
  qed
qed

lemma removeByKeys_append_fresh:
  assumes "distinct (map e_key es)"
  shows "removeByKeys (es @ [\<lparr>e_key = fresh_key (map e_key es), e_from = f, e_to = t, e_timestamp = ts\<rparr>])
           (map fst (allEdges es u1 u2))
         = filter (\<lambda>i. \<not> between u1 u2 i) es
           @ [\<lparr>e_key = fresh_key (map e_key es), e_from = f, e_to = t, e_timestamp = ts\<rparr>]"
proof -
  have "fresh_key (map e_key es) \<notin> set (map fst (allEdges es u1 u2))"
  proof
    assume "fresh_key (map e_key es) \<in> set (map fst (allEdges es u1 u2))"
    then have "fresh_key (map e_key es) \<in> set (map e_key es)"
      unfolding set_keys_allEdges by auto
    from fresh_key_gt [OF this] show False by simp
  qed
  then have "removeByKeys (es @ [\<lparr>e_key = fresh_key (map e_key es), e_from = f, e_to = t, e_timestamp = ts\<rparr>])
           (map fst (allEdges es u1 u2))
      = removeByKeys es (map fst (allEdges es u1 u2))
           @ [\<lparr>e_key = fresh_key (map e_key es), e_from = f, e_to = t, e_timestamp = ts\<rparr>]"
    by (simp add: removeByKeys_def)
  then show ?thesis by (simp add: removeByKeys_allEdges [OF assms])
qed

lemma filter_not_between_id:
  "allEdges es u1 u2 = [] \<Longrightarrow> filter (\<lambda>i. \<not> between u1 u2 i) es = es"
  by (simp add: allEdges_Nil filter_empty_conv)

lemma update_cases:
  assumes u1: "u1 = doc_id ''users'' key1" and u2: "u2 = doc_id ''users'' key2"
  shows "updateAndCleanConnections collection key1 key2 timestamp d =
     (if newer_than_all d u1 u2 timestamp
      then let d1 = insert_edge collection u1 u2 timestamp d;
               d2 = (if allEdges (connectionsColl d) u1 u2 \<noteq> []
                     then d1\<lparr>connectionsColl := removeByKeys (connectionsColl d1)
                            (map fst (allEdges (connectionsColl d) u1 u2))\<rparr>
                     else d1)
           in (if allEdges (removedColl d) u1 u2 \<noteq> []
               then d2\<lparr>removedColl := removeByKeys (removedColl d2)
                      (map fst (allEdges (removedColl d) u1 u2))\<rparr>
               else d2)
      else d)"
  unfolding updateAndCleanConnections_def newer_than_all_def Let_def u1 u2
    newer_iff [symmetric]
  by (rule refl)

lemma update_rejected:
  "\<not> newer_than_all d (doc_id ''users'' key1) (doc_id ''users'' key2) timestamp \<Longrightarrow>
     updateAndCleanConnections collection key1 key2 timestamp d = d"
  by (simp only: update_cases [OF refl refl] if_False)

lemma add_accepted:
  assumes dk: "distinct_keys d"
    and u1: "u1 = doc_id ''users'' key1" and u2: "u2 = doc_id ''users'' key2"
    and nw: "newer_than_all d u1 u2 timestamp"
  shows "addConnection key1 key2 timestamp d =
     d\<lparr>connectionsColl :=
          filter (\<lambda>i. \<not> between u1 u2 i) (connectionsColl d)
          @ [\<lparr>e_key = fresh_key (map e_key (connectionsColl d)), e_from = u1,
               e_to = u2, e_timestamp = timestamp\<rparr>],
        removedColl := filter (\<lambda>i. \<not> between u1 u2 i) (removedColl d)\<rparr>"
proof -
  have d1: "distinct (map e_key (connectionsColl d))" and d2: "distinct (map e_key (removedColl d))"
    using dk by (simp_all add: distinct_keys_def)
  show ?thesis
    unfolding addConnection_def update_cases [OF u1 u2] Let_def
    using nw
    by (auto simp: insert_edge_def removeByKeys_append_fresh [OF d1] removeByKeys_allEdges [OF d2]
        filter_not_between_id)
qed

lemma remove_accepted:
  assumes dk: "distinct_keys d"
    and u1: "u1 = doc_id ''users'' key1" and u2: "u2 = doc_id ''users'' key2"
    and nw: "newer_than_all d u1 u2 timestamp"
  shows "removeConnection key1 key2 timestamp d =
     d\<lparr>connectionsColl := filter (\<lambda>i. \<not> between u1 u2 i) (connectionsColl d),
        removedColl :=
          filter (\<lambda>i. \<not> between u1 u2 i) (removedColl d)
          @ [\<lparr>e_key = fresh_key (map e_key (removedColl d)), e_from = u1,
               e_to = u2, e_timestamp = timestamp\<rparr>]\<rparr>"
proof -
  have d1: "distinct (map e_key (connectionsColl d))" and d2: "distinct (map e_key (removedColl d))"
    using dk by (simp_all add: distinct_keys_def)
  show ?thesis
    unfolding removeConnection_def update_cases [OF u1 u2] Let_def
    using nw
    by (auto simp: insert_edge_def removeByKeys_append_fresh [OF d2] removeByKeys_allEdges [OF d1]
        filter_not_between_id)
qed

lemma live_newer:
  "newer_than_all d (doc_id ''users'' a) (doc_id ''users'' b) ts
     \<longleftrightarrow> (\<forall>r\<in>set (live_records d a b). snd r < ts)"
  unfolding newer_than_all_def live_records_def
  by (simp add: ball_Un image_iff Ball_def) blast

lemma live_records_sym: "live_records d a b = live_records d b a"
  unfolding live_records_def by (simp add: between_sym [of "doc_id ''users'' a"])

lemma filter_between_accept:
  "between u1 u2 e \<Longrightarrow> filter (between u1 u2) (filter (\<lambda>i. \<not> between u1 u2 i) es @ [e]) = [e]"
  "filter (between u1 u2) (filter (\<lambda>i. \<not> between u1 u2 i) es) = []"
  by (simp_all add: filter_empty_conv)

lemma distinct_keys_accept:
  "distinct (map e_key es) \<Longrightarrow>
     distinct (map e_key (filter P es @ [\<lparr>e_key = fresh_key (map e_key es), e_from = f, e_to = t,
        e_timestamp = ts\<rparr>]))"
  using fresh_key_gt [of "fresh_key (map e_key es)" "map e_key es"]
  by (auto simp: distinct_map_filter)

lemma run_call_step_ab:
  assumes dk: "distinct_keys d" and keys: "call_keys c = (a, b)"
  shows "live_records (run_call c d) a b = lww (live_records d a b) c
         \<and> distinct_keys (run_call c d)"
proof (cases "newer_than_all d (doc_id ''users'' a) (doc_id ''users'' b) (call_timestamp c)")
  case False
  then have "run_call c d = d"
    using keys by (cases c) (simp_all add: addConnection_def removeConnection_def update_rejected)
  moreover have "lww (live_records d a b) c = live_records d a b"
    using False unfolding live_newer lww_def by (simp only: if_False)
  ultimately show ?thesis using dk by simp
next
  case True
  have btw: "between (doc_id ''users'' a) (doc_id ''users'' b)
      \<lparr>e_key = k, e_from = doc_id ''users'' a, e_to = doc_id ''users'' b, e_timestamp = ts\<rparr>" for k ts
    by (simp add: between_def)
  have d1: "distinct (map e_key (connectionsColl d))" and d2: "distinct (map e_key (removedColl d))"
    using dk by (simp_all add: distinct_keys_def)
  show ?thesis
  proof (cases c)
    case (AddConnection k1 k2 ts)
    with keys have [simp]: "k1 = a" "k2 = b" by simp_all
    have eq: "run_call c d = d\<lparr>connectionsColl :=
          filter (\<lambda>i. \<not> between (doc_id ''users'' a) (doc_id ''users'' b) i) (connectionsColl d)
          @ [\<lparr>e_key = fresh_key (map e_key (connectionsColl d)), e_from = doc_id ''users'' a,
               e_to = doc_id ''users'' b, e_timestamp = ts\<rparr>],
        removedColl := filter (\<lambda>i. \<not> between (doc_id ''users'' a) (doc_id ''users'' b) i) (removedColl d)\<rparr>"
      using add_accepted [OF dk refl refl, of a b ts] True AddConnection by simp
    have "live_records (run_call c d) a b = [(ConnectionsColl, ts)]"
      unfolding eq live_records_def by (simp add: filter_between_accept btw)
    moreover have "distinct_keys (run_call c d)"
      unfolding eq distinct_keys_def using distinct_keys_accept [OF d1] d2
      by (simp add: distinct_map_filter)
    ultimately show ?thesis using True AddConnection by (simp add: lww_def live_newer)
  next
    case (RemoveConnection k1 k2 ts)
    with keys have [simp]: "k1 = a" "k2 = b" by simp_all
    have eq: "run_call c d = d\<lparr>connectionsColl :=
          filter (\<lambda>i. \<not> between (doc_id ''users'' a) (doc_id ''users'' b) i) (connectionsColl d),
        removedColl := filter (\<lambda>i. \<not> between (doc_id ''users'' a) (doc_id ''users'' b) i) (removedColl d)
          @ [\<lparr>e_key = fresh_key (map e_key (removedColl d)), e_from = doc_id ''users'' a,
               e_to = doc_id ''users'' b, e_timestamp = ts\<rparr>]\<rparr>"
      using remove_accepted [OF dk refl refl, of a b ts] True RemoveConnection by simp
    have "live_records (run_call c d) a b = [(RemovedColl, ts)]"
      unfolding eq live_records_def by (simp add: filter_between_accept btw)
    moreover have "distinct_keys (run_call c d)"
      unfolding eq distinct_keys_def using distinct_keys_accept [OF d2] d1
      by (simp add: distinct_map_filter)
    ultimately show ?thesis using True RemoveConnection by (simp add: lww_def live_newer)
  qed
qed

lemma run_call_step:
  assumes dk: "distinct_keys d" and op: "on_pair a b c"
  shows "live_records (run_call c d) a b = lww (live_records d a b) c
         \<and> distinct_keys (run_call c d)"
proof -
  from op consider "call_keys c = (a, b)" | "call_keys c = (b, a)"
    unfolding on_pair_def by blast
  then show ?thesis
  proof cases
    case 1
    then show ?thesis by (rule run_call_step_ab [OF dk])
  next
    case 2
    from run_call_step_ab [OF dk 2] show ?thesis
      by (simp add: live_records_sym [of _ a b])
  qed
qed

lemma run_calls_fold:
  assumes "distinct_keys d" and "\<forall>c\<in>set cs. on_pair a b c"
  shows "live_records (run_calls cs d) a b = foldl lww (live_records d a b) cs
         \<and> distinct_keys (run_calls cs d)"
  using assms
proof (induction cs arbitrary: d)
  case Nil
  then show ?case by simp
next
  case (Cons c cs)
  from Cons.prems have step: "live_records (run_call c d) a b = lww (live_records d a b) c"
    and dk': "distinct_keys (run_call c d)"
    using run_call_step [of d a b c] by simp_all
  from Cons.IH [OF dk'] Cons.prems(2) step show ?case by simp
qed

lemma lww_fold_winner:
  assumes "rs = [] \<or> (\<exists>r. rs = [r])" and "rs \<noteq> [] \<or> cs \<noteq> []"
  shows "\<exists>k t. foldl lww rs cs = [(k, t)]
           \<and> ((k, t) \<in> set rs \<or> (\<exists>c\<in>set cs. k = call_kind c \<and> t = call_timestamp c))
           \<and> (\<forall>r\<in>set rs. snd r \<le> t) \<and> (\<forall>c\<in>set cs. call_timestamp c \<le> t)"
  using assms
proof (induction cs arbitrary: rs)
  case Nil
  then show ?case by auto
next
  case (Cons c cs)
  let ?rs' = "lww rs c"
  have shape: "?rs' = [] \<or> (\<exists>r. ?rs' = [r])" using Cons.prems(1) by (auto simp: lww_def)
  have ne: "?rs' \<noteq> [] \<or> cs \<noteq> []" using Cons.prems(1) by (auto simp: lww_def)
  from Cons.IH [OF shape ne] obtain k t where
    eq: "foldl lww ?rs' cs = [(k, t)]"
    and src: "(k, t) \<in> set ?rs' \<or> (\<exists>c\<in>set cs. k = call_kind c \<and> t = call_timestamp c)"
    and up1: "\<forall>r\<in>set ?rs'. snd r \<le> t" and up2: "\<forall>c\<in>set cs. call_timestamp c \<le> t"
    by blast
  have a: "(k, t) \<in> set rs \<or> (\<exists>c'\<in>set (c # cs). k = call_kind c' \<and> t = call_timestamp c')"
    using src by (auto simp: lww_def split: if_splits)
  have b: "\<forall>r\<in>set rs. snd r \<le> t"
    using up1 by (fastforce simp: lww_def split: if_splits)
  have c: "call_timestamp c \<le> t"
    using up1 Cons.prems(1) by (fastforce simp: lww_def split: if_splits)
  show ?case using eq a b c up2 by simp
qed

text \<open>
  C1. Let \<open>c\<close> be an addConnection or removeConnection call on the unordered pair of
  \<open>a\<close> and \<open>b\<close>, in a store whose generated keys are distinct. If its timestamp is
  strictly above the timestamp of every record of either kind for the pair (that is, above the
  most recent ConnectionEdge and above the most recent RemovalEdge, vacuously when there is
  none), the call is accepted: afterwards the pair has exactly one record, of the call's kind
  and timestamp, and the records of all other pairs are as before. Otherwise the call is
  rejected: the store is unchanged, and the function has no error to raise. Hence after any
  non-empty sequence of calls on a pair that had no record, the ledger holds exactly one live
  record for the pair, and it has the kind and timestamp of a call whose timestamp is the
  maximum over all calls.
\<close>

theorem ledger_last_writer_wins:
  assumes "distinct_keys d" and "on_pair a b c"
  shows "(newer_than_all d (doc_id ''users'' a) (doc_id ''users'' b) (call_timestamp c) \<longrightarrow>
            live_records (run_call c d) a b = [(call_kind c, call_timestamp c)]
          \<and> filter (\<lambda>i. \<not> between (doc_id ''users'' a) (doc_id ''users'' b) i)
               (connectionsColl (run_call c d))
            = filter (\<lambda>i. \<not> between (doc_id ''users'' a) (doc_id ''users'' b) i)
               (connectionsColl d)
          \<and> filter (\<lambda>i. \<not> between (doc_id ''users'' a) (doc_id ''users'' b) i)
               (removedColl (run_call c d))
            = filter (\<lambda>i. \<not> between (doc_id ''users'' a) (doc_id ''users'' b) i)
               (removedColl d))
       \<and> (\<not> newer_than_all d (doc_id ''users'' a) (doc_id ''users'' b) (call_timestamp c) \<longrightarrow>
            run_call c d = d)
       \<and> ((\<forall>c'\<in>set cs. on_pair a b c') \<and> cs \<noteq> [] \<and> live_records d a b = [] \<longrightarrow>
            (\<exists>w\<in>set cs.
               live_records (run_calls cs d) a b = [(call_kind w, call_timestamp w)]
             \<and> (\<forall>c'\<in>set cs. call_timestamp c' \<le> call_timestamp w)))"
proof (intro conjI impI)
  assume nw: "newer_than_all d (doc_id ''users'' a) (doc_id ''users'' b) (call_timestamp c)"
  from run_call_step [OF assms] nw
  show "live_records (run_call c d) a b = [(call_kind c, call_timestamp c)]"
    by (simp add: lww_def live_newer)
  have btw: "between (doc_id ''users'' a) (doc_id ''users'' b)
      \<lparr>e_key = k, e_from = doc_id ''users'' k1, e_to = doc_id ''users'' k2, e_timestamp = ts\<rparr>"
    if "(k1, k2) = (a, b) \<or> (k1, k2) = (b, a)" for k k1 k2 ts
    using that by (auto simp: between_def)
  have sym: "between (doc_id ''users'' b) (doc_id ''users'' a)
      = between (doc_id ''users'' a) (doc_id ''users'' b)"
    by (rule between_sym)
  have both: "filter (\<lambda>i. \<not> between (doc_id ''users'' a) (doc_id ''users'' b) i)
               (connectionsColl (run_call c d))
            = filter (\<lambda>i. \<not> between (doc_id ''users'' a) (doc_id ''users'' b) i)
               (connectionsColl d)
          \<and> filter (\<lambda>i. \<not> between (doc_id ''users'' a) (doc_id ''users'' b) i)
               (removedColl (run_call c d))
            = filter (\<lambda>i. \<not> between (doc_id ''users'' a) (doc_id ''users'' b) i)
               (removedColl d)"
  proof (cases c)
    case (AddConnection k1 k2 ts)
    with assms(2) have ks: "(k1, k2) = (a, b) \<or> (k1, k2) = (b, a)" by (simp add: on_pair_def)
    then have nw': "newer_than_all d (doc_id ''users'' k1) (doc_id ''users'' k2) ts"
      using nw AddConnection by (auto simp: newer_than_all_def sym)
    have bb: "between (doc_id ''users'' k1) (doc_id ''users'' k2)
       = between (doc_id ''users'' a) (doc_id ''users'' b)"
      using ks sym by auto
    show ?thesis
      using add_accepted [OF assms(1) refl refl nw'] btw [OF ks] AddConnection
      by (simp add: bb)
  next
    case (RemoveConnection k1 k2 ts)
    with assms(2) have ks: "(k1, k2) = (a, b) \<or> (k1, k2) = (b, a)" by (simp add: on_pair_def)
    then have nw': "newer_than_all d (doc_id ''users'' k1) (doc_id ''users'' k2) ts"
      using nw RemoveConnection by (auto simp: newer_than_all_def sym)
    have bb: "between (doc_id ''users'' k1) (doc_id ''users'' k2)
       = between (doc_id ''users'' a) (doc_id ''users'' b)"
      using ks sym by auto
    show ?thesis
      using remove_accepted [OF assms(1) refl refl nw'] btw [OF ks] RemoveConnection
      by (simp add: bb)
  qed
  from both show "filter (\<lambda>i. \<not> between (doc_id ''users'' a) (doc_id ''users'' b) i)
               (connectionsColl (run_call c d))
            = filter (\<lambda>i. \<not> between (doc_id ''users'' a) (doc_id ''users'' b) i)
               (connectionsColl d)" ..
  from both show "filter (\<lambda>i. \<not> between (doc_id ''users'' a) (doc_id ''users'' b) i)
               (removedColl (run_call c d))
            = filter (\<lambda>i. \<not> between (doc_id ''users'' a) (doc_id ''users'' b) i)
               (removedColl d)" ..
next
  assume nn: "\<not> newer_than_all d (doc_id ''users'' a) (doc_id ''users'' b) (call_timestamp c)"
  have sym: "between (doc_id ''users'' b) (doc_id ''users'' a)
      = between (doc_id ''users'' a) (doc_id ''users'' b)"
    by (rule between_sym)
  obtain k1 k2 where ck: "call_keys c = (k1, k2)" by (cases "call_keys c")
  with assms(2) have ks: "(k1, k2) = (a, b) \<or> (k1, k2) = (b, a)" by (simp add: on_pair_def)
  then have "\<not> newer_than_all d (doc_id ''users'' k1) (doc_id ''users'' k2) (call_timestamp c)"
    using nn by (auto simp: newer_than_all_def sym)
  then show "run_call c d = d"
    using ck by (cases c) (simp_all add: addConnection_def removeConnection_def update_rejected)
next
  assume h: "(\<forall>c'\<in>set cs. on_pair a b c') \<and> cs \<noteq> [] \<and> live_records d a b = []"
  then have fold: "live_records (run_calls cs d) a b = foldl lww [] cs"
    using run_calls_fold [OF assms(1), of cs a b] by simp
  from h lww_fold_winner [of "[]" cs] obtain k t where
    "foldl lww [] cs = [(k, t)]" "\<exists>c\<in>set cs. k = call_kind c \<and> t = call_timestamp c"
    "\<forall>c\<in>set cs. call_timestamp c \<le> t" by auto
  then show "\<exists>w\<in>set cs.
               live_records (run_calls cs d) a b = [(call_kind w, call_timestamp w)]
             \<and> (\<forall>c'\<in>set cs. call_timestamp c' \<le> call_timestamp w)"
    unfolding fold by auto
qed

lemmas ledger_eval = run_calls.simps run_call.simps addConnection_def removeConnection_def
  updateAndCleanConnections_def allEdges_def between_def doc_id_def insert_edge_def fresh_key_def
  removeByKeys_def live_records_def empty_db_def Let_def

theorem ledger_last_writer_wins_witness:
  "distinct_keys ledger_example
   \<and> on_pair ''a'' ''b'' (RemoveConnection ''b'' ''a'' 9)
   \<and> newer_than_all ledger_example (doc_id ''users'' ''a'') (doc_id ''users'' ''b'') 9
   \<and> live_records (run_call (RemoveConnection ''b'' ''a'' 9) ledger_example) ''a'' ''b''
       = [(RemovedColl, 9)]
   \<and> live_records ledger_example ''a'' ''b'' = []
   \<and> live_records (run_calls [AddConnection ''a'' ''b'' 5, RemoveConnection ''b'' ''a'' 9,
         AddConnection ''a'' ''b'' 7] ledger_example) ''a'' ''b'' = [(RemovedColl, 9)]"
proof -
  have h1: "distinct_keys ledger_example"
    by (simp add: distinct_keys_def ledger_example_def empty_db_def)
  have h2: "on_pair ''a'' ''b'' (RemoveConnection ''b'' ''a'' 9)"
    by (simp add: on_pair_def)
  have h3: "newer_than_all ledger_example (doc_id ''users'' ''a'') (doc_id ''users'' ''b'') 9"
    by (simp add: newer_than_all_def ledger_example_def empty_db_def between_def doc_id_def)
  have h4: "live_records ledger_example ''a'' ''b'' = []"
    by (simp add: live_records_def ledger_example_def empty_db_def between_def doc_id_def)
  have h5: "\<forall>c'\<in>set [AddConnection ''a'' ''b'' 5, RemoveConnection ''b'' ''a'' 9,
         AddConnection ''a'' ''b'' 7]. on_pair ''a'' ''b'' c'"
    by (simp add: on_pair_def)
  from ledger_last_writer_wins [OF h1 h2, of "[AddConnection ''a'' ''b'' 5,
      RemoveConnection ''b'' ''a'' 9, AddConnection ''a'' ''b'' 7]"] h3 h4 h5
  show ?thesis using h1 h2 by simp
qed

text \<open>
  C4 as stated fails on a tie: an add and a remove with the same timestamp leave a
  ConnectionEdge in one order and a RemovalEdge in the other, since the second call is not
  strictly newer than the first.
\<close>

theorem arbitration_order_counterexample:
  "mset [AddConnection ''a'' ''b'' 5, RemoveConnection ''a'' ''b'' 5]
     = mset [RemoveConnection ''a'' ''b'' 5, AddConnection ''a'' ''b'' 5]
   \<and> live_records (run_calls [AddConnection ''a'' ''b'' 5, RemoveConnection ''a'' ''b'' 5]
        empty_db) ''a'' ''b'' = [(ConnectionsColl, 5)]
   \<and> live_records (run_calls [RemoveConnection ''a'' ''b'' 5, AddConnection ''a'' ''b'' 5]
        empty_db) ''a'' ''b'' = [(RemovedColl, 5)]"
  by (simp add: ledger_eval)

section \<open>Properties of eligibility\<close>

lemma set_uniq [simp]: "set (uniq xs) = set xs"
  by (induction xs) auto

lemma distinct_uniq [simp]: "distinct (uniq xs)"
  by (induction xs) auto

lemma length_intersection: "length (intersection xs ys) = card (set xs \<inter> set ys)"
proof -
  have "distinct (intersection xs ys)"
    unfolding intersection_def by (rule distinct_uniq)
  then have "length (intersection xs ys) = card (set (intersection xs ys))"
    by (rule distinct_card [symmetric])
  also have "set (intersection xs ys) = set xs \<inter> set ys"
    unfolding intersection_def by auto
  finally show ?thesis .
qed

lemma str_replace_prefix: "prefix pat s \<Longrightarrow> str_replace s pat rep = rep @ drop (length pat) s"
  by (cases s) simp_all

lemma str_replace_doc_id: "str_replace (doc_id ''users'' k) ''users/'' [] = k"
  by (simp add: doc_id_def)

lemma strip_users_inj:
  assumes "prefix ''users/'' s" and "prefix ''users/'' t"
    and "str_replace s ''users/'' [] = str_replace t ''users/'' []"
  shows "s = t"
proof -
  from assms(1) obtain s' where s: "s = ''users/'' @ s'" unfolding prefix_def by blast
  from assms(2) obtain t' where t: "t = ''users/'' @ t'" unfolding prefix_def by blast
  have "str_replace s ''users/'' [] = s'"
    unfolding str_replace_prefix [OF assms(1)] s by simp
  moreover have "str_replace t ''users/'' [] = t'"
    unfolding str_replace_prefix [OF assms(2)] t by simp
  ultimately show ?thesis using assms(3) s t by simp
qed

lemma distinct_groupMembers:
  assumes "\<forall>e\<in>set (usersInGroupsColl d). prefix ''users/'' (e_from e)"
  shows "distinct (groupMembers groupId False d)"
proof -
  let ?es = "filter (\<lambda>i. e_to i = doc_id ''groups'' groupId) (usersInGroupsColl d)"
  have pre: "prefix ''users/'' x" if "x \<in> set (uniq (map e_from ?es))" for x
  proof -
    from that obtain e where "e \<in> set (usersInGroupsColl d)" "x = e_from e" by auto
    with assms show ?thesis by blast
  qed
  have "inj_on (\<lambda>m. str_replace m ''users/'' []) (set (uniq (map e_from ?es)))"
    by (rule inj_onI) (rule strip_users_inj [OF pre pre])
  then have "distinct (map (\<lambda>m. str_replace m ''users/'' []) (uniq (map e_from ?es)))"
    by (simp only: distinct_map distinct_uniq simp_thms)
  then show ?thesis
    unfolding groupMembers_def Let_def by (simp only: if_False)
qed

lemma eligible_example_members:
  "groupMembers ''g'' False eligible_example = [''m1'', ''m2'', ''m3'', ''m4'']"
  by (simp add: groupMembers_def eligible_example_def empty_db_def doc_id_def)

lemma eligible_example_u: "userConnections ''u'' eligible_example = [''m1'', ''m2'']"
  by (simp add: userConnections_def userConnectionsRaw_def eligible_example_def empty_db_def
      doc_id_def)

lemma eligible_example_w: "userConnections ''w'' eligible_example = [''m1'', ''m2'', ''x'', ''m3'']"
  by (simp add: userConnections_def userConnectionsRaw_def eligible_example_def empty_db_def
      doc_id_def)

section \<open>Properties of sponsorship\<close>

text \<open>
  C5, as amended. \<^verbatim>\<open>sponsor\<close> inserts one SponsorshipEdge for the context on every
  call, whatever the context's \<^verbatim>\<open>totalSponsorships\<close> and the number of edges it has;
  it has no failure. The number of edges of the context grows by one each time.
\<close>

theorem sponsor_always_inserts:
  "sponsorshipsColl (sponsor key context d) =
     sponsorshipsColl d @
       [\<lparr>s_key = fresh_key (map s_key (sponsorshipsColl d)), s_from = doc_id ''users'' key,
         s_to = doc_id ''contexts'' context\<rparr>]
   \<and> usedSponsorships context (sponsor key context d) = Suc (usedSponsorships context d)
   \<and> contextsColl (sponsor key context d) = contextsColl d"
  by (simp add: sponsor_def usedSponsorships_def)

text \<open>
  C5 as stated fails: in a context of capacity 1 the first call uses the capacity up, and the
  second call still inserts an edge, after which \<^verbatim>\<open>getContext\<close> reports -1 unused
  sponsorships.
\<close>

theorem sponsor_capacity_counterexample:
  "getContext ''c'' (sponsor ''u1'' ''c'' sponsor_example)
     = Inr (\<lparr>c_key = ''c'', c_totalSponsorships = 1\<rparr>, 0)
   \<and> usedSponsorships ''c'' (sponsor ''u2'' ''c'' (sponsor ''u1'' ''c'' sponsor_example)) = 2
   \<and> getContext ''c'' (sponsor ''u2'' ''c'' (sponsor ''u1'' ''c'' sponsor_example))
     = Inr (\<lparr>c_key = ''c'', c_totalSponsorships = 1\<rparr>, - 1)"
  by (simp add: getContext_def usedSponsorships_def sponsor_def sponsor_example_def empty_db_def
      doc_id_def)

section \<open>Properties of account links\<close>

lemma hd_sort_key_least:
  assumes "xs \<noteq> []"
  shows "hd (sort_key f xs) \<in> set xs \<and> (\<forall>x\<in>set xs. f (hd (sort_key f xs)) \<le> f x)"
proof -
  have ne: "sort_key f xs \<noteq> []" using assms by (metis set_empty set_sort)
  then obtain y ys where ys: "sort_key f xs = y # ys" by (cases "sort_key f xs") auto
  have "sorted (map f (y # ys))" using sorted_sort_key [of f xs] ys by simp
  then have "\<forall>x\<in>set (y # ys). f y \<le> f x" by auto
  moreover have "set (y # ys) = set xs" using ys set_sort [of f xs] by simp
  ultimately show ?thesis using ys by auto
qed

lemma inUse_Nil:
  "inUse coll u = [] \<longleftrightarrow>
     \<not> (\<exists>u2\<in>set coll. v_account u2 = v_account u \<and> v_user u2 \<noteq> v_user u
          \<and> (case latest coll u2 of [] \<Rightarrow> False | k # _ \<Rightarrow> k = v_key u2))"
  unfolding inUse_def by (auto simp: filter_empty_conv)

section \<open>Properties of the group lifecycle\<close>

lemma migrate_groups [simp]:
  "groupsColl (migrate docs d) = groupsColl d"
  "newGroupsColl (migrate docs d) = newGroupsColl d"
  by (induction docs arbitrary: d) (simp_all add: insert_edge_def Let_def)

lemma migrate_forming:
  "usersInNewGroupsColl (migrate docs d)
     = filter (\<lambda>i. e_key i \<notin> set (map e_key docs)) (usersInNewGroupsColl d)"
proof (induction docs arbitrary: d)
  case Nil
  then show ?case by simp
next
  case (Cons doc docs)
  show ?case
    by (simp add: Cons.IH insert_edge_def Let_def conj_commute)
qed

lemma migrate_established:
  "map (\<lambda>e. (e_from e, e_to e, e_timestamp e)) (usersInGroupsColl (migrate docs d))
     = map (\<lambda>e. (e_from e, e_to e, e_timestamp e)) (usersInGroupsColl d)
       @ map (\<lambda>doc. (e_from doc, str_replace (e_to doc) ''newGroups'' ''groups'', e_timestamp doc))
           docs"
proof (induction docs arbitrary: d)
  case Nil
  then show ?case by simp
next
  case (Cons doc docs)
  show ?case
    by (simp add: Cons.IH insert_edge_def Let_def)
qed

lemma replace_newGroups:
  "str_replace (doc_id ''newGroups'' groupId) ''newGroups'' ''groups'' = doc_id ''groups'' groupId"
  by (simp add: doc_id_def)

lemma length_uniq: "length (uniq xs) = card (set xs)"
  using distinct_card [of "uniq xs"] by simp

lemma addMembership_forming:
  assumes "filter (\<lambda>i. g_key i = groupId) (groupsColl d) = []"
    and "filter (\<lambda>i. g_key i = groupId) (newGroupsColl d) = g # rest"
    and "doc_id ''users'' key \<in> set (g_founders g)"
  shows "addMembership groupId key timestamp d =
     (let d1 = addUserToGroup UsersInNewGroupsColl groupId key timestamp ''newGroups'' d;
          groupMembers0 = filter (\<lambda>i. e_to i = doc_id ''newGroups'' groupId)
                            (usersInNewGroupsColl d1)
      in if card (joined_after groupId key d) = length (g_founders g) then
           Inr ((migrate groupMembers0
                   (d1\<lparr>groupsColl := groupsColl d1 @
                        [\<lparr>g_key = g_key g, g_score = 0, g_isNew = False,
                          g_timestamp = g_timestamp g, g_founders = g_founders g\<rparr>]\<rparr>))
                \<lparr>newGroupsColl := filter (\<lambda>i. g_key i \<noteq> g_key g) (newGroupsColl d)\<rparr>)
         else Inr d1)"
proof -
  have "set (map e_from (filter (\<lambda>i. e_to i = doc_id ''newGroups'' groupId)
      (usersInNewGroupsColl (addUserToGroup UsersInNewGroupsColl groupId key timestamp
         ''newGroups'' d)))) = joined_after groupId key d"
    unfolding joined_after_def addUserToGroup_def insert_edge_def Let_def by auto
  then have len: "length (uniq (map e_from (filter (\<lambda>i. e_to i = doc_id ''newGroups'' groupId)
      (usersInNewGroupsColl (addUserToGroup UsersInNewGroupsColl groupId key timestamp
         ''newGroups'' d))))) = card (joined_after groupId key d)"
    unfolding length_uniq by simp
  have ng: "newGroupsColl (addUserToGroup UsersInNewGroupsColl groupId key timestamp
         ''newGroups'' d) = newGroupsColl d"
    by (simp add: addUserToGroup_def insert_edge_def Let_def)
  show ?thesis
    unfolding addMembership_def Let_def assms(1,2) len
    using assms(3) by (simp add: ng)
qed

text \<open>
  C3, as amended. A founder joins a forming group, and with this join the number of distinct
  users with a forming membership edge reaches the number of founders. Then the join succeeds
  and creates an established group record with the forming group's key, founders and
  timestamp and with score 0 (which is the forming group's score as long as that still has its
  creation value), creates an established membership edge with the same user and timestamp
  for every forming membership edge of the group, the new one included, and leaves no forming
  membership edge and no forming record of the group. When only founders had joined, every
  founder is an established member afterwards.
\<close>

theorem addMembership_promotes:
  assumes est: "filter (\<lambda>i. g_key i = groupId) (groupsColl d) = []"
    and forming: "filter (\<lambda>i. g_key i = groupId) (newGroupsColl d) = g # rest"
    and founder: "doc_id ''users'' key \<in> set (g_founders g)"
    and full: "card (joined_after groupId key d) = length (g_founders g)"
  shows "\<exists>d'. addMembership groupId key timestamp d = Inr d'
     \<and> groupsColl d' = groupsColl d @
          [\<lparr>g_key = groupId, g_score = 0, g_isNew = False, g_timestamp = g_timestamp g,
            g_founders = g_founders g\<rparr>]
     \<and> map (\<lambda>e. (e_from e, e_to e, e_timestamp e)) (usersInGroupsColl d')
         = map (\<lambda>e. (e_from e, e_to e, e_timestamp e)) (usersInGroupsColl d)
           @ map (\<lambda>i. (e_from i, doc_id ''groups'' groupId, e_timestamp i))
               (filter (\<lambda>i. e_to i = doc_id ''newGroups'' groupId) (usersInNewGroupsColl d))
           @ [(doc_id ''users'' key, doc_id ''groups'' groupId, timestamp)]
     \<and> filter (\<lambda>i. e_to i = doc_id ''newGroups'' groupId) (usersInNewGroupsColl d') = []
     \<and> newGroupsColl d' = filter (\<lambda>i. g_key i \<noteq> groupId) (newGroupsColl d)
     \<and> ((\<forall>i\<in>set (usersInNewGroupsColl d).
            e_to i = doc_id ''newGroups'' groupId \<longrightarrow> e_from i \<in> set (g_founders g))
          \<longrightarrow> (\<forall>f\<in>set (g_founders g).
                 str_replace f ''users/'' [] \<in> set (groupMembers groupId False d')))"
proof -
  let ?grp = "doc_id ''newGroups'' groupId"
  let ?new = "\<lparr>e_key = fresh_key (map e_key (usersInNewGroupsColl d)),
      e_from = doc_id ''users'' key, e_to = ?grp, e_timestamp = timestamp\<rparr>"
  let ?d1 = "addUserToGroup UsersInNewGroupsColl groupId key timestamp ''newGroups'' d"
  let ?docs = "filter (\<lambda>i. e_to i = ?grp) (usersInNewGroupsColl d) @ [?new]"
  let ?G = "\<lparr>g_key = g_key g, g_score = 0, g_isNew = False, g_timestamp = g_timestamp g,
      g_founders = g_founders g\<rparr>"
  let ?d' = "(migrate ?docs (?d1\<lparr>groupsColl := groupsColl ?d1 @ [?G]\<rparr>))
      \<lparr>newGroupsColl := filter (\<lambda>i. g_key i \<noteq> g_key g) (newGroupsColl d)\<rparr>"
  have gk: "g_key g = groupId"
  proof -
    have "g \<in> set (filter (\<lambda>i. g_key i = groupId) (newGroupsColl d))"
      unfolding forming by simp
    then show ?thesis by simp
  qed
  have d1: "usersInNewGroupsColl ?d1 = usersInNewGroupsColl d @ [?new]"
    "usersInGroupsColl ?d1 = usersInGroupsColl d" "groupsColl ?d1 = groupsColl d"
    by (simp_all add: addUserToGroup_def insert_edge_def Let_def)
  have docs: "filter (\<lambda>i. e_to i = ?grp) (usersInNewGroupsColl ?d1) = ?docs"
    unfolding d1 by simp
  have res: "addMembership groupId key timestamp d = Inr ?d'"
    unfolding addMembership_forming [OF est forming founder] Let_def docs using full by simp
  have c1: "groupsColl ?d' = groupsColl d @
          [\<lparr>g_key = groupId, g_score = 0, g_isNew = False, g_timestamp = g_timestamp g,
            g_founders = g_founders g\<rparr>]"
    by (simp add: d1 gk)
  have repl: "map (\<lambda>doc. (e_from doc, str_replace (e_to doc) ''newGroups'' ''groups'',
        e_timestamp doc)) ?docs
      = map (\<lambda>i. (e_from i, doc_id ''groups'' groupId, e_timestamp i))
               (filter (\<lambda>i. e_to i = ?grp) (usersInNewGroupsColl d))
           @ [(doc_id ''users'' key, doc_id ''groups'' groupId, timestamp)]"
    by (simp add: replace_newGroups cong: map_cong)
  have c2: "map (\<lambda>e. (e_from e, e_to e, e_timestamp e)) (usersInGroupsColl ?d')
         = map (\<lambda>e. (e_from e, e_to e, e_timestamp e)) (usersInGroupsColl d)
           @ map (\<lambda>i. (e_from i, doc_id ''groups'' groupId, e_timestamp i))
               (filter (\<lambda>i. e_to i = ?grp) (usersInNewGroupsColl d))
           @ [(doc_id ''users'' key, doc_id ''groups'' groupId, timestamp)]"
    using migrate_established [of ?docs "?d1\<lparr>groupsColl := groupsColl ?d1 @ [?G]\<rparr>"]
    unfolding repl by (simp add: d1)
  have c3: "filter (\<lambda>i. e_to i = ?grp) (usersInNewGroupsColl ?d') = []"
  proof -
    have "usersInNewGroupsColl ?d'
        = filter (\<lambda>i. e_key i \<notin> set (map e_key ?docs)) (usersInNewGroupsColl d @ [?new])"
      using migrate_forming [of ?docs "?d1\<lparr>groupsColl := groupsColl ?d1 @ [?G]\<rparr>"]
      by (simp add: d1)
    then show ?thesis by (auto simp: filter_empty_conv)
  qed
  have c4: "newGroupsColl ?d' = filter (\<lambda>i. g_key i \<noteq> groupId) (newGroupsColl d)"
    by (simp add: gk)
  have c5: "str_replace f ''users/'' [] \<in> set (groupMembers groupId False ?d')"
    if only: "\<forall>i\<in>set (usersInNewGroupsColl d). e_to i = ?grp \<longrightarrow> e_from i \<in> set (g_founders g)"
      and f: "f \<in> set (g_founders g)" for f
  proof -
    have sub: "joined_after groupId key d \<subseteq> set (g_founders g)"
      using only founder unfolding joined_after_def by auto
    have "card (set (g_founders g)) \<le> length (g_founders g)" by (rule card_length)
    then have "card (set (g_founders g)) \<le> card (joined_after groupId key d)"
      using full by simp
    with sub have "joined_after groupId key d = set (g_founders g)"
      by (intro card_seteq) simp_all
    with f have "f \<in> joined_after groupId key d" by simp
    then obtain t where "(f, doc_id ''groups'' groupId, t)
        \<in> set (map (\<lambda>e. (e_from e, e_to e, e_timestamp e)) (usersInGroupsColl ?d'))"
      unfolding c2 joined_after_def by auto
    then obtain e where e: "e \<in> set (usersInGroupsColl ?d')" "e_from e = f"
      "e_to e = doc_id ''groups'' groupId" by auto
    then have "f \<in> set (uniq (map e_from (filter (\<lambda>i. e_to i = doc_id ''groups'' groupId)
        (usersInGroupsColl ?d'))))" by auto
    then show ?thesis
      unfolding groupMembers_def Let_def by (simp only: if_False set_map) (rule imageI)
  qed
  show ?thesis
    using res c1 c2 c3 c4 c5 by blast
qed

lemmas membership_eval = addMembership_def addUserToGroup_def insert_edge_def fresh_key_def
  doc_id_def Let_def promote_example_def empty_db_def

theorem addMembership_promotes_witness:
  "filter (\<lambda>i. g_key i = ''gid'') (groupsColl promote_example) = []
   \<and> filter (\<lambda>i. g_key i = ''gid'') (newGroupsColl promote_example)
       = \<lparr>g_key = ''gid'', g_score = 7, g_isNew = True, g_timestamp = 1,
           g_founders = [''users/a'', ''users/b'', ''users/c'']\<rparr> # []
   \<and> doc_id ''users'' ''c'' \<in> set [''users/a'', ''users/b'', ''users/c'']
   \<and> card (joined_after ''gid'' ''c'' promote_example) = 3
   \<and> (\<exists>d'. addMembership ''gid'' ''c'' 9 promote_example = Inr d'
        \<and> groupsColl d' = [\<lparr>g_key = ''gid'', g_score = 0, g_isNew = False, g_timestamp = 1,
             g_founders = [''users/a'', ''users/b'', ''users/c'']\<rparr>]
        \<and> newGroupsColl d' = []
        \<and> filter (\<lambda>i. e_to i = doc_id ''newGroups'' ''gid'') (usersInNewGroupsColl d') = []
        \<and> ''a'' \<in> set (groupMembers ''gid'' False d')
        \<and> ''b'' \<in> set (groupMembers ''gid'' False d')
        \<and> ''c'' \<in> set (groupMembers ''gid'' False d'))"
proof -
  let ?g = "\<lparr>g_key = ''gid'', g_score = 7, g_isNew = True, g_timestamp = 1,
           g_founders = [''users/a'', ''users/b'', ''users/c'']\<rparr>"
  have h1: "filter (\<lambda>i. g_key i = ''gid'') (groupsColl promote_example) = []"
    by (simp add: promote_example_def empty_db_def)
  have h2: "filter (\<lambda>i. g_key i = ''gid'') (newGroupsColl promote_example) = ?g # []"
    by (simp add: promote_example_def empty_db_def)
  have h3: "doc_id ''users'' ''c'' \<in> set (g_founders ?g)"
    by (simp add: doc_id_def)
  have "joined_after ''gid'' ''c'' promote_example = {''users/a'', ''users/b'', ''users/c''}"
    by (auto simp: joined_after_def promote_example_def empty_db_def doc_id_def)
  then have c: "card (joined_after ''gid'' ''c'' promote_example) = 3" by simp
  then have h4: "card (joined_after ''gid'' ''c'' promote_example) = length (g_founders ?g)"
    by simp
  have only: "\<forall>i\<in>set (usersInNewGroupsColl promote_example).
      e_to i = doc_id ''newGroups'' ''gid'' \<longrightarrow> e_from i \<in> set (g_founders ?g)"
    by (simp add: promote_example_def empty_db_def)
  from addMembership_promotes [OF h1 h2 h3 h4, of 9] obtain d' where
    r: "addMembership ''gid'' ''c'' 9 promote_example = Inr d'"
    and g: "groupsColl d' = groupsColl promote_example @
          [\<lparr>g_key = ''gid'', g_score = 0, g_isNew = False, g_timestamp = g_timestamp ?g,
            g_founders = g_founders ?g\<rparr>]"
    and e: "filter (\<lambda>i. e_to i = doc_id ''newGroups'' ''gid'') (usersInNewGroupsColl d') = []"
    and n: "newGroupsColl d' = filter (\<lambda>i. g_key i \<noteq> ''gid'') (newGroupsColl promote_example)"
    and m: "(\<forall>i\<in>set (usersInNewGroupsColl promote_example).
            e_to i = doc_id ''newGroups'' ''gid'' \<longrightarrow> e_from i \<in> set (g_founders ?g))
          \<longrightarrow> (\<forall>f\<in>set (g_founders ?g).
                 str_replace f ''users/'' [] \<in> set (groupMembers ''gid'' False d'))"
    by blast
  from m only have mem: "\<forall>f\<in>set (g_founders ?g).
      str_replace f ''users/'' [] \<in> set (groupMembers ''gid'' False d')" by blast
  have g': "groupsColl d' = [\<lparr>g_key = ''gid'', g_score = 0, g_isNew = False, g_timestamp = 1,
             g_founders = [''users/a'', ''users/b'', ''users/c'']\<rparr>]"
    using g by (simp add: promote_example_def empty_db_def)
  have n': "newGroupsColl d' = []"
    using n by (simp add: promote_example_def empty_db_def)
  have ma: "''a'' \<in> set (groupMembers ''gid'' False d')"
    and mb: "''b'' \<in> set (groupMembers ''gid'' False d')"
    and mc: "''c'' \<in> set (groupMembers ''gid'' False d')"
    using mem by simp_all
  from h1 h2 h3 c r g' n' e ma mb mc show ?thesis by (simp add: doc_id_def)
qed

text \<open>
  C3 as stated fails for the score: the established record is saved with score 0, not with the
  forming group's score. Here the forming group has score 7.
\<close>

theorem addMembership_score_counterexample:
  "map g_score (newGroupsColl promote_example) = [7]
   \<and> addMembership ''gid'' ''c'' 9 promote_example =
       Inr \<lparr>connectionsColl = [], removedColl = [],
         groupsColl = [\<lparr>g_key = ''gid'', g_score = 0, g_isNew = False, g_timestamp = 1,
            g_founders = [''users/a'', ''users/b'', ''users/c'']\<rparr>],
         newGroupsColl = [],
         usersInGroupsColl =
           [\<lparr>e_key = 1, e_from = ''users/a'', e_to = ''groups/gid'', e_timestamp = 1\<rparr>,
            \<lparr>e_key = 2, e_from = ''users/b'', e_to = ''groups/gid'', e_timestamp = 4\<rparr>,
            \<lparr>e_key = 3, e_from = ''users/c'', e_to = ''groups/gid'', e_timestamp = 9\<rparr>],
         usersInNewGroupsColl = [], usersColl = [], contextsColl = [],
         sponsorshipsColl = []\<rparr>"
  by (simp add: membership_eval)

lemma filter_uniq: "filter P (uniq xs) = uniq (filter P xs)"
proof (induction xs)
  case Nil
  then show ?case by simp
next
  case (Cons x xs)
  have "filter P (filter (\<lambda>y. y \<noteq> x) (uniq xs)) = filter (\<lambda>y. y \<noteq> x) (filter P (uniq xs))"
    by (simp add: conj_commute)
  then have swap: "filter P (filter (\<lambda>y. y \<noteq> x) (uniq xs)) = filter (\<lambda>y. y \<noteq> x) (uniq (filter P xs))"
    by (simp only: Cons.IH)
  show ?case
  proof (cases "P x")
    case True
    then show ?thesis using swap by simp
  next
    case False
    then have "x \<notin> set (uniq (filter P xs))" by simp
    then have "filter (\<lambda>y. y \<noteq> x) (uniq (filter P xs)) = uniq (filter P xs)"
      by (simp add: filter_id_conv) blast
    with False swap show ?thesis by simp
  qed
qed

lemma uniq_append_member: "x \<in> set xs \<Longrightarrow> uniq (xs @ [x]) = uniq xs"
proof (induction xs)
  case Nil
  then show ?case by simp
next
  case (Cons y ys)
  show ?case
  proof (cases "x = y")
    case True
    have "filter (\<lambda>z. z \<noteq> y) (uniq (ys @ [y])) = filter (\<lambda>z. z \<noteq> y) (uniq ys)"
      unfolding filter_uniq by simp
    with True show ?thesis by simp
  next
    case False
    with Cons.prems have "x \<in> set ys" by simp
    from Cons.IH [OF this] show ?thesis by simp
  qed
qed

text \<open>
  C8, as amended. A join always inserts a membership edge. When a founder who already has a
  forming membership edge joins a forming group again, and the group is not complete, the call
  succeeds and adds a second edge for the same user and group; the list of distinct members
  that \<^verbatim>\<open>groupMembers\<close> reports is unchanged.
\<close>

theorem rejoin_adds_edge:
  assumes est: "filter (\<lambda>i. g_key i = groupId) (groupsColl d) = []"
    and forming: "filter (\<lambda>i. g_key i = groupId) (newGroupsColl d) = g # rest"
    and founder: "doc_id ''users'' key \<in> set (g_founders g)"
    and member: "\<exists>i\<in>set (usersInNewGroupsColl d).
        e_from i = doc_id ''users'' key \<and> e_to i = doc_id ''newGroups'' groupId"
    and incomplete: "card (joined_after groupId key d) \<noteq> length (g_founders g)"
  shows "addMembership groupId key timestamp d =
       Inr (d\<lparr>usersInNewGroupsColl := usersInNewGroupsColl d @
          [\<lparr>e_key = fresh_key (map e_key (usersInNewGroupsColl d)),
            e_from = doc_id ''users'' key, e_to = doc_id ''newGroups'' groupId,
            e_timestamp = timestamp\<rparr>]\<rparr>)
     \<and> groupMembers groupId True
         (d\<lparr>usersInNewGroupsColl := usersInNewGroupsColl d @
          [\<lparr>e_key = fresh_key (map e_key (usersInNewGroupsColl d)),
            e_from = doc_id ''users'' key, e_to = doc_id ''newGroups'' groupId,
            e_timestamp = timestamp\<rparr>]\<rparr>)
       = groupMembers groupId True d"
proof
  show "addMembership groupId key timestamp d =
       Inr (d\<lparr>usersInNewGroupsColl := usersInNewGroupsColl d @
          [\<lparr>e_key = fresh_key (map e_key (usersInNewGroupsColl d)),
            e_from = doc_id ''users'' key, e_to = doc_id ''newGroups'' groupId,
            e_timestamp = timestamp\<rparr>]\<rparr>)"
    unfolding addMembership_forming [OF est forming founder] Let_def
    using incomplete by (simp add: addUserToGroup_def insert_edge_def)
next
  from member obtain i where "i \<in> set (usersInNewGroupsColl d)"
    "e_from i = doc_id ''users'' key" "e_to i = doc_id ''newGroups'' groupId" by blast
  then have "i \<in> set (filter (\<lambda>i. e_to i = doc_id ''newGroups'' groupId)
      (usersInNewGroupsColl d))" "e_from i = doc_id ''users'' key" by simp_all
  then have "doc_id ''users'' key \<in> set (map e_from
      (filter (\<lambda>i. e_to i = doc_id ''newGroups'' groupId) (usersInNewGroupsColl d)))"
    unfolding set_map by (metis imageI)
  from uniq_append_member [OF this]
  show "groupMembers groupId True
         (d\<lparr>usersInNewGroupsColl := usersInNewGroupsColl d @
          [\<lparr>e_key = fresh_key (map e_key (usersInNewGroupsColl d)),
            e_from = doc_id ''users'' key, e_to = doc_id ''newGroups'' groupId,
            e_timestamp = timestamp\<rparr>]\<rparr>)
       = groupMembers groupId True d"
    by (simp add: groupMembers_def)
qed

theorem rejoin_adds_edge_witness:
  "filter (\<lambda>i. g_key i = ''gid'') (groupsColl promote_example) = []
   \<and> filter (\<lambda>i. g_key i = ''gid'') (newGroupsColl promote_example)
       = \<lparr>g_key = ''gid'', g_score = 7, g_isNew = True, g_timestamp = 1,
           g_founders = [''users/a'', ''users/b'', ''users/c'']\<rparr> # []
   \<and> doc_id ''users'' ''a'' \<in> set [''users/a'', ''users/b'', ''users/c'']
   \<and> (\<exists>i\<in>set (usersInNewGroupsColl promote_example).
        e_from i = doc_id ''users'' ''a'' \<and> e_to i = doc_id ''newGroups'' ''gid'')
   \<and> card (joined_after ''gid'' ''a'' promote_example) = 2
   \<and> addMembership ''gid'' ''a'' 9 promote_example =
       Inr (promote_example\<lparr>usersInNewGroupsColl := usersInNewGroupsColl promote_example @
          [\<lparr>e_key = 3, e_from = ''users/a'', e_to = ''newGroups/gid'', e_timestamp = 9\<rparr>]\<rparr>)
   \<and> groupMembers ''gid'' True promote_example = [''a'', ''b'']"
proof -
  let ?g = "\<lparr>g_key = ''gid'', g_score = 7, g_isNew = True, g_timestamp = 1,
           g_founders = [''users/a'', ''users/b'', ''users/c'']\<rparr>"
  have h1: "filter (\<lambda>i. g_key i = ''gid'') (groupsColl promote_example) = []"
    by (simp add: promote_example_def empty_db_def)
  have h2: "filter (\<lambda>i. g_key i = ''gid'') (newGroupsColl promote_example) = ?g # []"
    by (simp add: promote_example_def empty_db_def)
  have h3: "doc_id ''users'' ''a'' \<in> set (g_founders ?g)"
    by (simp add: doc_id_def)
  have h4: "\<exists>i\<in>set (usersInNewGroupsColl promote_example).
        e_from i = doc_id ''users'' ''a'' \<and> e_to i = doc_id ''newGroups'' ''gid''"
    by (simp add: promote_example_def empty_db_def doc_id_def)
  have "joined_after ''gid'' ''a'' promote_example = {''users/a'', ''users/b''}"
    by (auto simp: joined_after_def promote_example_def empty_db_def doc_id_def)
  then have c: "card (joined_after ''gid'' ''a'' promote_example) = 2" by simp
  then have h5: "card (joined_after ''gid'' ''a'' promote_example) \<noteq> length (g_founders ?g)"
    by simp
  have k: "fresh_key (map e_key (usersInNewGroupsColl promote_example)) = 3"
    by (simp add: fresh_key_def promote_example_def empty_db_def)
  have m: "groupMembers ''gid'' True promote_example = [''a'', ''b'']"
    by (simp add: groupMembers_def promote_example_def empty_db_def doc_id_def)
  from rejoin_adds_edge [OF h1 h2 h3 h4 h5, of 9]
  have "addMembership ''gid'' ''a'' 9 promote_example =
       Inr (promote_example\<lparr>usersInNewGroupsColl := usersInNewGroupsColl promote_example @
          [\<lparr>e_key = 3, e_from = ''users/a'', e_to = ''newGroups/gid'', e_timestamp = 9\<rparr>]\<rparr>)"
    by (simp add: k doc_id_def)
  with h1 h2 h3 h4 c m show ?thesis by (simp add: doc_id_def)
qed

text \<open>
  C8 as stated fails: founder a, who is a member already, joins again and the forming
  collection then holds two membership edges from a to the group.
\<close>

theorem rejoin_duplicate_counterexample:
  "addMembership ''gid'' ''a'' 9 promote_example =
       Inr (promote_example\<lparr>usersInNewGroupsColl :=
         [\<lparr>e_key = 1, e_from = ''users/a'', e_to = ''newGroups/gid'', e_timestamp = 1\<rparr>,
          \<lparr>e_key = 2, e_from = ''users/b'', e_to = ''newGroups/gid'', e_timestamp = 4\<rparr>,
          \<lparr>e_key = 3, e_from = ''users/a'', e_to = ''newGroups/gid'', e_timestamp = 9\<rparr>]\<rparr>)
   \<and> length (filter (\<lambda>i. e_from i = ''users/a'' \<and> e_to i = ''newGroups/gid'')
        [\<lparr>e_key = 1, e_from = ''users/a'', e_to = ''newGroups/gid'', e_timestamp = 1\<rparr>,
         \<lparr>e_key = 2, e_from = ''users/b'', e_to = ''newGroups/gid'', e_timestamp = 4\<rparr>,
         \<lparr>e_key = 3, e_from = ''users/a'', e_to = ''newGroups/gid'', e_timestamp = 9\<rparr>]) = 2"
  by (simp add: membership_eval)

section \<open>Properties of group creation\<close>

lemma doc_id_inject [simp]: "doc_id c k = doc_id c k' \<longleftrightarrow> k = k'"
  by (simp add: doc_id_def)

lemma prefix_users_doc_id: "prefix ''users/'' s \<longleftrightarrow> (\<exists>k. s = doc_id ''users'' k)"
  by (auto simp: prefix_def doc_id_def)

lemma isDuplicate_iff:
  "isDuplicate user1 user2 user3 coll \<longleftrightarrow>
     (\<exists>g\<in>set coll. user1 \<in> set (g_founders g) \<and> user2 \<in> set (g_founders g)
        \<and> user3 \<in> set (g_founders g))"
proof -
  let ?P = "\<lambda>i. user1 \<in> set (g_founders i) \<and> user2 \<in> set (g_founders i)
        \<and> user3 \<in> set (g_founders i)"
  have "isDuplicate user1 user2 user3 coll \<longleftrightarrow> filter ?P coll \<noteq> []"
    unfolding isDuplicate_def by (cases "filter ?P coll") simp_all
  also have "\<dots> \<longleftrightarrow> (\<exists>g\<in>set coll. ?P g)"
    unfolding filter_empty_conv by blast
  finally show ?thesis .
qed

lemma three_of_three:
  assumes "distinct [u1, u2, u3]" and "length fs = 3"
  shows "u1 \<in> set fs \<and> u2 \<in> set fs \<and> u3 \<in> set fs \<longleftrightarrow> set fs = {u1, u2, u3}"
proof
  assume in3: "u1 \<in> set fs \<and> u2 \<in> set fs \<and> u3 \<in> set fs"
  then have sub: "{u1, u2, u3} \<subseteq> set fs" by simp
  have "card {u1, u2, u3} = 3" using assms(1) by simp
  moreover have "card (set fs) \<le> 3" using card_length [of fs] assms(2) by simp
  ultimately have "card (set fs) \<le> card {u1, u2, u3}" by simp
  with sub show "set fs = {u1, u2, u3}"
    using card_seteq [of "set fs" "{u1, u2, u3}"] by simp
next
  assume "set fs = {u1, u2, u3}"
  then show "u1 \<in> set fs \<and> u2 \<in> set fs \<and> u3 \<in> set fs" by simp
qed

lemma duplicate_same_founders:
  assumes three: "distinct [key1, key2, key3]"
    and groups3: "\<forall>g\<in>set (newGroupsColl d) \<union> set (groupsColl d). length (g_founders g) = 3"
  shows "isDuplicate (doc_id ''users'' key1) (doc_id ''users'' key2) (doc_id ''users'' key3)
           (newGroupsColl d)
         \<or> isDuplicate (doc_id ''users'' key1) (doc_id ''users'' key2) (doc_id ''users'' key3)
           (groupsColl d)
     \<longleftrightarrow> same_founders d key1 key2 key3"
proof -
  have d3: "distinct [doc_id ''users'' key1, doc_id ''users'' key2, doc_id ''users'' key3]"
    using three by simp
  have eq: "doc_id ''users'' key1 \<in> set (g_founders g) \<and> doc_id ''users'' key2 \<in> set (g_founders g)
        \<and> doc_id ''users'' key3 \<in> set (g_founders g)
      \<longleftrightarrow> set (g_founders g)
          = {doc_id ''users'' key1, doc_id ''users'' key2, doc_id ''users'' key3}"
    if "g \<in> set (newGroupsColl d) \<union> set (groupsColl d)" for g
    using three_of_three [OF d3, of "g_founders g"] groups3 that by blast
  show ?thesis
    unfolding isDuplicate_iff same_founders_def using eq by blast
qed

lemma userConnections_connected:
  assumes handles: "\<forall>e\<in>set (connectionsColl d).
      prefix ''users/'' (e_from e) \<and> prefix ''users/'' (e_to e)"
  shows "key2 \<in> set (userConnections key1 d) \<longleftrightarrow> connected d key1 key2"
proof
  assume "key2 \<in> set (userConnections key1 d)"
  then obtain s where s: "s \<in> set (userConnectionsRaw key1 d)"
    and k: "key2 = str_replace s ''users/'' []"
    unfolding userConnections_def by auto
  from s consider e where "e \<in> set (connectionsColl d)" "e_from e = doc_id ''users'' key1" "s = e_to e"
    | e where "e \<in> set (connectionsColl d)" "e_to e = doc_id ''users'' key1" "s = e_from e"
    unfolding userConnectionsRaw_def Let_def by auto
  then show "connected d key1 key2"
  proof cases
    case 1
    with handles obtain k' where "s = doc_id ''users'' k'"
      unfolding prefix_users_doc_id by blast
    with k have "s = doc_id ''users'' key2" by (simp add: str_replace_doc_id)
    with 1 show ?thesis unfolding connected_def between_def by auto
  next
    case 2
    with handles obtain k' where "s = doc_id ''users'' k'"
      unfolding prefix_users_doc_id by blast
    with k have "s = doc_id ''users'' key2" by (simp add: str_replace_doc_id)
    with 2 show ?thesis unfolding connected_def between_def by auto
  qed
next
  assume "connected d key1 key2"
  then obtain e where e: "e \<in> set (connectionsColl d)"
    "between (doc_id ''users'' key1) (doc_id ''users'' key2) e"
    unfolding connected_def by blast
  then have "doc_id ''users'' key2 \<in> set (userConnectionsRaw key1 d)"
    unfolding userConnectionsRaw_def Let_def between_def by force
  then have "str_replace (doc_id ''users'' key2) ''users/'' [] \<in> set (userConnections key1 d)"
    unfolding userConnections_def set_map by (rule imageI)
  then show "key2 \<in> set (userConnections key1 d)" by (simp only: str_replace_doc_id)
qed

text \<open>
  C7. The three founders are three different users, every stored group has three founders, and
  every connection edge joins two user handles. Then \<^verbatim>\<open>createGroup\<close> fails with
  "Duplicate group" when a forming or established group has the same set of founders, whatever
  the order of the arguments; it fails when the creator has no connection edge to one of the
  cofounders; and otherwise, the generated id being unused, it succeeds: it stores a forming
  group with score 0 whose founder list is the sorted list of the three handles, and one forming
  membership edge, from the creator. If no edge pointed to the new group before, the creator is
  its only member.
\<close>

theorem createGroup_outcome:
  assumes three: "distinct [key1, key2, key3]"
    and groups3: "\<forall>g\<in>set (newGroupsColl d) \<union> set (groupsColl d). length (g_founders g) = 3"
    and handles: "\<forall>e\<in>set (connectionsColl d).
      prefix ''users/'' (e_from e) \<and> prefix ''users/'' (e_to e)"
  shows "(same_founders d key1 key2 key3 \<longrightarrow>
            createGroup key1 key2 key3 timestamp groupId d = Inl DuplicateGroup)
       \<and> (\<not> (connected d key1 key2 \<and> connected d key1 key3) \<longrightarrow>
            createGroup key1 key2 key3 timestamp groupId d \<in> {Inl DuplicateGroup, Inl NotConnected})
       \<and> (\<not> same_founders d key1 key2 key3 \<and> connected d key1 key2 \<and> connected d key1 key3
            \<and> groupId \<notin> set (map g_key (newGroupsColl d)) \<longrightarrow>
            createGroup key1 key2 key3 timestamp groupId d =
              Inr (d\<lparr>newGroupsColl := newGroupsColl d @
                       [\<lparr>g_key = groupId, g_score = 0, g_isNew = True, g_timestamp = timestamp,
                         g_founders = sort [doc_id ''users'' key1, doc_id ''users'' key2,
                                            doc_id ''users'' key3]\<rparr>],
                     usersInNewGroupsColl := usersInNewGroupsColl d @
                       [\<lparr>e_key = fresh_key (map e_key (usersInNewGroupsColl d)),
                         e_from = doc_id ''users'' key1, e_to = doc_id ''newGroups'' groupId,
                         e_timestamp = timestamp\<rparr>]\<rparr>, groupId)
            \<and> sorted (sort [doc_id ''users'' key1, doc_id ''users'' key2, doc_id ''users'' key3])
            \<and> sort [doc_id ''users'' key1, doc_id ''users'' key2, doc_id ''users'' key3]
                = sort [doc_id ''users'' key3, doc_id ''users'' key1, doc_id ''users'' key2]
            \<and> (filter (\<lambda>i. e_to i = doc_id ''newGroups'' groupId) (usersInNewGroupsColl d) = []
                \<longrightarrow> groupMembers groupId True
                      (d\<lparr>newGroupsColl := newGroupsColl d @
                       [\<lparr>g_key = groupId, g_score = 0, g_isNew = True, g_timestamp = timestamp,
                         g_founders = sort [doc_id ''users'' key1, doc_id ''users'' key2,
                                            doc_id ''users'' key3]\<rparr>],
                     usersInNewGroupsColl := usersInNewGroupsColl d @
                       [\<lparr>e_key = fresh_key (map e_key (usersInNewGroupsColl d)),
                         e_from = doc_id ''users'' key1, e_to = doc_id ''newGroups'' groupId,
                         e_timestamp = timestamp\<rparr>]\<rparr>) = [key1]))"
proof -
  note dup = duplicate_same_founders [OF three groups3]
  note con = userConnections_connected [OF handles]
  have a: "createGroup key1 key2 key3 timestamp groupId d = Inl DuplicateGroup"
    if "same_founders d key1 key2 key3"
    using that dup unfolding createGroup_def Let_def by simp
  have b: "createGroup key1 key2 key3 timestamp groupId d \<in> {Inl DuplicateGroup, Inl NotConnected}"
    if "\<not> (connected d key1 key2 \<and> connected d key1 key3)"
  proof (cases "same_founders d key1 key2 key3")
    case True
    then show ?thesis using a by simp
  next
    case False
    with that dup show ?thesis
      unfolding createGroup_def Let_def by (auto simp: con)
  qed
  have c: "createGroup key1 key2 key3 timestamp groupId d =
              Inr (d\<lparr>newGroupsColl := newGroupsColl d @
                       [\<lparr>g_key = groupId, g_score = 0, g_isNew = True, g_timestamp = timestamp,
                         g_founders = sort [doc_id ''users'' key1, doc_id ''users'' key2,
                                            doc_id ''users'' key3]\<rparr>],
                     usersInNewGroupsColl := usersInNewGroupsColl d @
                       [\<lparr>e_key = fresh_key (map e_key (usersInNewGroupsColl d)),
                         e_from = doc_id ''users'' key1, e_to = doc_id ''newGroups'' groupId,
                         e_timestamp = timestamp\<rparr>]\<rparr>, groupId)"
    if "\<not> same_founders d key1 key2 key3" "connected d key1 key2" "connected d key1 key3"
      "groupId \<notin> set (map g_key (newGroupsColl d))"
  proof -
    have nd: "\<not> (isDuplicate (doc_id ''users'' key1) (doc_id ''users'' key2)
         (doc_id ''users'' key3) (newGroupsColl d)
       \<or> isDuplicate (doc_id ''users'' key1) (doc_id ''users'' key2) (doc_id ''users'' key3)
         (groupsColl d))"
      using that(1) dup by simp
    have k2: "key2 \<in> set (userConnections key1 d)" and k3: "key3 \<in> set (userConnections key1 d)"
      using that(2,3) con by simp_all
    show ?thesis
      unfolding createGroup_def Let_def
      using nd k2 k3 that(4)
      by (simp add: addUserToGroup_def insert_edge_def)
  qed
  have s: "sort [doc_id ''users'' key1, doc_id ''users'' key2, doc_id ''users'' key3]
                = sort [doc_id ''users'' key3, doc_id ''users'' key1, doc_id ''users'' key2]"
  proof (rule properties_for_sort)
    show "mset (sort [doc_id ''users'' key3, doc_id ''users'' key1, doc_id ''users'' key2])
        = mset [doc_id ''users'' key1, doc_id ''users'' key2, doc_id ''users'' key3]"
      unfolding mset_sort by simp
    show "sorted (sort [doc_id ''users'' key3, doc_id ''users'' key1, doc_id ''users'' key2])"
      by (rule sorted_sort)
  qed
  have m: "groupMembers groupId True
                      (d\<lparr>newGroupsColl := ng,
                     usersInNewGroupsColl := usersInNewGroupsColl d @
                       [\<lparr>e_key = fresh_key (map e_key (usersInNewGroupsColl d)),
                         e_from = doc_id ''users'' key1, e_to = doc_id ''newGroups'' groupId,
                         e_timestamp = timestamp\<rparr>]\<rparr>) = [key1]"
    if "filter (\<lambda>i. e_to i = doc_id ''newGroups'' groupId) (usersInNewGroupsColl d) = []" for ng
    using that by (simp add: groupMembers_def str_replace_doc_id)
  show ?thesis using a b c s m by (intro conjI impI) (simp_all only: sorted_sort simp_thms)
qed

lemma create_example_sort:
  "sort [doc_id ''users'' ''b'', doc_id ''users'' ''a'', doc_id ''users'' ''c'']
     = [''users/a'', ''users/b'', ''users/c'']"
  by code_simp

theorem createGroup_outcome_witness:
  "distinct [''d'', ''c'', ''b''] \<and> distinct [''a'', ''b'', ''c''] \<and> distinct [''b'', ''a'', ''c'']
   \<and> list_all (\<lambda>g. length (g_founders g) = 3)
        (newGroupsColl create_example @ groupsColl create_example)
   \<and> list_all (\<lambda>e. prefix ''users/'' (e_from e) \<and> prefix ''users/'' (e_to e))
        (connectionsColl create_example)
   \<and> same_founders create_example ''d'' ''c'' ''b''
   \<and> createGroup ''d'' ''c'' ''b'' 5 ''gid'' create_example = Inl DuplicateGroup
   \<and> \<not> connected create_example ''a'' ''c''
   \<and> createGroup ''a'' ''b'' ''c'' 5 ''gid'' create_example = Inl NotConnected
   \<and> \<not> same_founders create_example ''b'' ''a'' ''c''
   \<and> connected create_example ''b'' ''a'' \<and> connected create_example ''b'' ''c''
   \<and> ''gid'' \<notin> set (map g_key (newGroupsColl create_example))
   \<and> createGroup ''b'' ''a'' ''c'' 5 ''gid'' create_example =
       Inr (create_example\<lparr>newGroupsColl :=
              [\<lparr>g_key = ''gid'', g_score = 0, g_isNew = True, g_timestamp = 5,
                g_founders = [''users/a'', ''users/b'', ''users/c'']\<rparr>],
            usersInNewGroupsColl :=
              [\<lparr>e_key = 1, e_from = ''users/b'', e_to = ''newGroups/gid'', e_timestamp = 5\<rparr>]\<rparr>,
            ''gid'')"
proof -
  have g3: "\<forall>g\<in>set (newGroupsColl create_example) \<union> set (groupsColl create_example).
        length (g_founders g) = 3"
    by (simp add: create_example_def empty_db_def)
  have hd: "\<forall>e\<in>set (connectionsColl create_example).
        prefix ''users/'' (e_from e) \<and> prefix ''users/'' (e_to e)"
    by (simp add: create_example_def empty_db_def)
  have d1: "distinct [''d'', ''c'', ''b'']" and d2: "distinct [''a'', ''b'', ''c'']"
    and d3: "distinct [''b'', ''a'', ''c'']" by simp_all
  have s1: "same_founders create_example ''d'' ''c'' ''b''"
    by (auto simp: same_founders_def create_example_def empty_db_def doc_id_def)
  have n2: "\<not> connected create_example ''a'' ''c''"
    by (simp add: connected_def create_example_def empty_db_def doc_id_def between_def)
  have ne: "set [''users/b'', ''users/c'', ''users/d''] \<noteq> A"
    if "''users/d'' \<notin> A" for A :: "string set"
  proof
    assume "set [''users/b'', ''users/c'', ''users/d''] = A"
    moreover have "''users/d'' \<in> set [''users/b'', ''users/c'', ''users/d'']" by simp
    ultimately have "''users/d'' \<in> A" by (simp only:)
    with that show False by simp
  qed
  have s2: "\<not> same_founders create_example ''a'' ''b'' ''c''"
    unfolding same_founders_def create_example_def empty_db_def doc_id_def
    using ne [of "{''users/a'', ''users/b'', ''users/c''}"] by simp
  have s3: "\<not> same_founders create_example ''b'' ''a'' ''c''"
    unfolding same_founders_def create_example_def empty_db_def doc_id_def
    using ne [of "{''users/b'', ''users/a'', ''users/c''}"] by simp
  have c3: "connected create_example ''b'' ''a''" "connected create_example ''b'' ''c''"
    by (simp_all add: connected_def create_example_def empty_db_def doc_id_def between_def)
  have f3: "''gid'' \<notin> set (map g_key (newGroupsColl create_example))"
    by (simp add: create_example_def empty_db_def)
  have r1: "createGroup ''d'' ''c'' ''b'' 5 ''gid'' create_example = Inl DuplicateGroup"
    using createGroup_outcome [OF d1 g3 hd, of 5 "''gid''"] s1 by blast
  have "createGroup ''a'' ''b'' ''c'' 5 ''gid'' create_example
      \<in> {Inl DuplicateGroup, Inl NotConnected}"
    using createGroup_outcome [OF d2 g3 hd, of 5 "''gid''"] n2 by blast
  moreover have "createGroup ''a'' ''b'' ''c'' 5 ''gid'' create_example \<noteq> Inl DuplicateGroup"
    using s2 duplicate_same_founders [OF d2 g3]
    unfolding createGroup_def Let_def by auto
  ultimately have r2: "createGroup ''a'' ''b'' ''c'' 5 ''gid'' create_example = Inl NotConnected"
    by blast
  have k: "fresh_key (map e_key (usersInNewGroupsColl create_example)) = 1"
    by (simp add: fresh_key_def create_example_def empty_db_def)
  have e: "newGroupsColl create_example = []" "usersInNewGroupsColl create_example = []"
    by (simp_all add: create_example_def empty_db_def)
  have "createGroup ''b'' ''a'' ''c'' 5 ''gid'' create_example =
              Inr (create_example\<lparr>newGroupsColl := newGroupsColl create_example @
                       [\<lparr>g_key = ''gid'', g_score = 0, g_isNew = True, g_timestamp = 5,
                         g_founders = sort [doc_id ''users'' ''b'', doc_id ''users'' ''a'',
                                            doc_id ''users'' ''c'']\<rparr>],
                     usersInNewGroupsColl := usersInNewGroupsColl create_example @
                       [\<lparr>e_key = fresh_key (map e_key (usersInNewGroupsColl create_example)),
                         e_from = doc_id ''users'' ''b'', e_to = doc_id ''newGroups'' ''gid'',
                         e_timestamp = 5\<rparr>]\<rparr>, ''gid'')"
    using createGroup_outcome [OF d3 g3 hd, of 5 "''gid''"] s3 c3 f3 by blast
  then have r3: "createGroup ''b'' ''a'' ''c'' 5 ''gid'' create_example =
       Inr (create_example\<lparr>newGroupsColl :=
              [\<lparr>g_key = ''gid'', g_score = 0, g_isNew = True, g_timestamp = 5,
                g_founders = [''users/a'', ''users/b'', ''users/c'']\<rparr>],
            usersInNewGroupsColl :=
              [\<lparr>e_key = 1, e_from = ''users/b'', e_to = ''newGroups/gid'', e_timestamp = 5\<rparr>]\<rparr>,
            ''gid'')"
    unfolding create_example_sort k e by (simp add: doc_id_def fresh_key_def)
  from d1 d2 d3 g3 hd s1 r1 n2 r2 s3 c3 f3 r3 show ?thesis
    unfolding list_all_iff set_append by blast
qed

text \<open>
  Outside these hypotheses the duplicate test is wider than equality of the founder sets: it
  asks that each of the three handles occurs in a stored founder list. With a founder named
  twice the call is refused although no stored group has these founders.
\<close>

lemma createGroup_repeated_founder:
  "connected create_example ''b'' ''c''
   \<and> \<not> same_founders create_example ''b'' ''c'' ''c''
   \<and> createGroup ''b'' ''c'' ''c'' 5 ''gid'' create_example = Inl DuplicateGroup"
proof -
  have "set [''users/b'', ''users/c'', ''users/d''] \<noteq> {''users/b'', ''users/c''}"
  proof
    assume "set [''users/b'', ''users/c'', ''users/d''] = {''users/b'', ''users/c''}"
    moreover have "''users/d'' \<in> set [''users/b'', ''users/c'', ''users/d'']" by simp
    ultimately have "''users/d'' \<in> {''users/b'', ''users/c''}" by (simp only:)
    then show False by simp
  qed
  then have "\<not> same_founders create_example ''b'' ''c'' ''c''"
    unfolding same_founders_def create_example_def empty_db_def doc_id_def by simp
  moreover have "connected create_example ''b'' ''c''"
    by (simp add: connected_def create_example_def empty_db_def doc_id_def between_def)
  moreover have "createGroup ''b'' ''c'' ''c'' 5 ''gid'' create_example = Inl DuplicateGroup"
    by (simp add: createGroup_def isDuplicate_def create_example_def empty_db_def doc_id_def)
  ultimately show ?thesis by blast
qed

section \<open>Properties of eligible-group discovery\<close>

text \<open>
  C9 fails on the order of the result. The candidates are sorted by descending count, but
  \<^verbatim>\<open>loadGroups\<close> then scans the groups collection and returns the eligible groups in
  the collection's order. Here the user's connections are a, b and d; group g1 has 2 of them
  among its 3 members, group g2 has 3 of them among its 3 members, both are eligible, and g1,
  with the smaller count, comes first in the result.
\<close>

theorem userEligibleGroups_order_lost:
  "candidates_of [''users/a'', ''users/b'', ''users/d''] [] rank_example
     = [(''groups/g2'', 3), (''groups/g1'', 2)]
   \<and> map d_id (userEligibleGroups ''u'' [''users/a'', ''users/b'', ''users/d''] [] rank_example)
     = [''g1'', ''g2'']"
  by code_simp

text \<open>
  The counts of \<^verbatim>\<open>userEligibleGroups\<close> are counts of membership edges, not of members.
  After member a of group g3 has joined it twice more (each join is accepted and adds an edge),
  user u, whose only connection is a, is offered g3, while \<^verbatim>\<open>isEligible\<close>, which counts
  distinct members, rejects u: one connection among three members.
\<close>

lemma rejoined_twice_reached:
  "addMembership ''g3'' ''a'' 7 rejoined_example
     = Inr (rejoined_example\<lparr>usersInGroupsColl := usersInGroupsColl rejoined_example @
         [\<lparr>e_key = 4, e_from = ''users/a'', e_to = ''groups/g3'', e_timestamp = 7\<rparr>]\<rparr>)
   \<and> addMembership ''g3'' ''a'' 8
       (rejoined_example\<lparr>usersInGroupsColl := usersInGroupsColl rejoined_example @
         [\<lparr>e_key = 4, e_from = ''users/a'', e_to = ''groups/g3'', e_timestamp = 7\<rparr>]\<rparr>)
     = Inr rejoined_twice"
  by (simp add: addMembership_def isEligible_def userConnections_def userConnectionsRaw_def
      groupMembers_def intersection_def addUserToGroup_def insert_edge_def fresh_key_def
      doc_id_def Let_def rejoined_twice_def rejoined_example_def empty_db_def)

lemma userEligibleGroups_counts_edges:
  "userConnectionsRaw ''u'' rejoined_twice = [''users/a'']
   \<and> groupMembers ''g3'' False rejoined_twice = [''a'', ''b'', ''c'']
   \<and> \<not> isEligible ''g3'' ''u'' rejoined_twice
   \<and> map d_id (userEligibleGroups ''u'' [''users/a''] [] rejoined_twice) = [''g3'']"
  by code_simp

section \<open>Order of the calls\<close>

lemma lww_fold_cases:
  "(foldl lww rs cs = rs \<and> (\<forall>c\<in>set cs. \<exists>r\<in>set rs. call_timestamp c \<le> snd r))
   \<or> (\<exists>w\<in>set cs. foldl lww rs cs = [(call_kind w, call_timestamp w)]
         \<and> (\<forall>r\<in>set rs. snd r < call_timestamp w)
         \<and> (\<forall>c\<in>set cs. call_timestamp c \<le> call_timestamp w))"
proof (induction cs arbitrary: rs)
  case Nil
  then show ?case by simp
next
  case (Cons c cs)
  show ?case
  proof (cases "\<forall>r\<in>set rs. snd r < call_timestamp c")
    case True
    then have step: "lww rs c = [(call_kind c, call_timestamp c)]" by (simp add: lww_def)
    from Cons.IH [of "[(call_kind c, call_timestamp c)]"]
    consider
        (kept) "foldl lww [(call_kind c, call_timestamp c)] cs = [(call_kind c, call_timestamp c)]"
          "\<forall>c'\<in>set cs. call_timestamp c' \<le> call_timestamp c"
      | (later) w where "w \<in> set cs"
          "foldl lww [(call_kind c, call_timestamp c)] cs = [(call_kind w, call_timestamp w)]"
          "call_timestamp c < call_timestamp w"
          "\<forall>c'\<in>set cs. call_timestamp c' \<le> call_timestamp w"
      by auto
    then show ?thesis
    proof cases
      case kept
      have "\<exists>w\<in>set (c # cs). foldl lww rs (c # cs) = [(call_kind w, call_timestamp w)]
         \<and> (\<forall>r\<in>set rs. snd r < call_timestamp w)
         \<and> (\<forall>c'\<in>set (c # cs). call_timestamp c' \<le> call_timestamp w)"
        using kept True step by (intro bexI [of _ c]) simp_all
      then show ?thesis by blast
    next
      case later
      have "\<forall>r\<in>set rs. snd r < call_timestamp w" using True later(3) by fastforce
      then have "\<exists>w\<in>set (c # cs). foldl lww rs (c # cs) = [(call_kind w, call_timestamp w)]
         \<and> (\<forall>r\<in>set rs. snd r < call_timestamp w)
         \<and> (\<forall>c'\<in>set (c # cs). call_timestamp c' \<le> call_timestamp w)"
        using later step by (intro bexI [of _ w]) simp_all
      then show ?thesis by blast
    qed
  next
    case False
    then have step: "lww rs c = rs" unfolding lww_def by (simp only: if_False)
    from False obtain r0 where r0: "r0 \<in> set rs" "call_timestamp c \<le> snd r0" by fastforce
    from Cons.IH [of rs]
    consider
        (kept) "foldl lww rs cs = rs" "\<forall>c'\<in>set cs. \<exists>r\<in>set rs. call_timestamp c' \<le> snd r"
      | (later) w where "w \<in> set cs" "foldl lww rs cs = [(call_kind w, call_timestamp w)]"
          "\<forall>r\<in>set rs. snd r < call_timestamp w"
          "\<forall>c'\<in>set cs. call_timestamp c' \<le> call_timestamp w"
      by auto
    then show ?thesis
    proof cases
      case kept
      then have "foldl lww rs (c # cs) = rs
          \<and> (\<forall>c'\<in>set (c # cs). \<exists>r\<in>set rs. call_timestamp c' \<le> snd r)"
        using step r0 by auto
      then show ?thesis by blast
    next
      case later
      have "call_timestamp c \<le> call_timestamp w" using r0 later(3) by fastforce
      then have "\<exists>w\<in>set (c # cs). foldl lww rs (c # cs) = [(call_kind w, call_timestamp w)]
         \<and> (\<forall>r\<in>set rs. snd r < call_timestamp w)
         \<and> (\<forall>c'\<in>set (c # cs). call_timestamp c' \<le> call_timestamp w)"
        using later step by (intro bexI [of _ w]) simp_all
      then show ?thesis by blast
    qed
  qed
qed

text \<open>
  C4, as amended. For calls on a pair, applied to the same store in any two orders of the same
  multiset: when all the calls that carry the maximum timestamp are of the same kind (in
  particular when no two calls of different kind share a timestamp), both orders leave the same
  live records for the pair.
\<close>

theorem arbitration_order_independent:
  assumes dk: "distinct_keys d"
    and on: "\<forall>c\<in>set cs. on_pair a b c"
    and perm: "mset cs' = mset cs"
    and ties: "\<forall>c\<in>set cs. \<forall>c'\<in>set cs.
        (\<forall>x\<in>set cs. call_timestamp x \<le> call_timestamp c)
        \<and> (\<forall>x\<in>set cs. call_timestamp x \<le> call_timestamp c')
        \<longrightarrow> call_kind c = call_kind c'"
  shows "live_records (run_calls cs' d) a b = live_records (run_calls cs d) a b"
proof -
  let ?rs = "live_records d a b"
  have sets: "set cs' = set cs" using perm by (rule mset_eq_setD)
  have f1: "live_records (run_calls cs d) a b = foldl lww ?rs cs"
    using run_calls_fold [OF dk on] by simp
  have f2: "live_records (run_calls cs' d) a b = foldl lww ?rs cs'"
    using run_calls_fold [OF dk, of cs' a b] on sets by simp
  from lww_fold_cases [of ?rs cs]
  consider
      (kept) "foldl lww ?rs cs = ?rs" "\<forall>c\<in>set cs. \<exists>r\<in>set ?rs. call_timestamp c \<le> snd r"
    | (won) w where "w \<in> set cs" "foldl lww ?rs cs = [(call_kind w, call_timestamp w)]"
        "\<forall>r\<in>set ?rs. snd r < call_timestamp w"
        "\<forall>c\<in>set cs. call_timestamp c \<le> call_timestamp w"
    by blast
  then show ?thesis
  proof cases
    case kept
    from lww_fold_cases [of ?rs cs'] kept(2) have "foldl lww ?rs cs' = ?rs"
      unfolding sets by fastforce
    with kept(1) show ?thesis unfolding f1 f2 by simp
  next
    case won
    from lww_fold_cases [of ?rs cs'] won(1,3) obtain w' where
      w': "w' \<in> set cs" "foldl lww ?rs cs' = [(call_kind w', call_timestamp w')]"
        "\<forall>c\<in>set cs. call_timestamp c \<le> call_timestamp w'"
      unfolding sets by fastforce
    have "call_timestamp w = call_timestamp w'"
      using won(1,4) w'(1,3) by (meson order_antisym)
    moreover have "call_kind w = call_kind w'"
      using ties won(1,4) w'(1,3) by blast
    ultimately show ?thesis unfolding f1 f2 won(2) w'(2) by simp
  qed
qed

theorem arbitration_order_independent_witness:
  "distinct_keys ledger_pair_example
   \<and> live_records ledger_pair_example ''a'' ''b'' = [(ConnectionsColl, 6)]
   \<and> mset [AddConnection ''a'' ''b'' 7, AddConnection ''a'' ''b'' 5, RemoveConnection ''b'' ''a'' 9]
       = mset [AddConnection ''a'' ''b'' 5, RemoveConnection ''b'' ''a'' 9, AddConnection ''a'' ''b'' 7]
   \<and> live_records (run_calls [AddConnection ''a'' ''b'' 7, AddConnection ''a'' ''b'' 5,
         RemoveConnection ''b'' ''a'' 9] ledger_pair_example) ''a'' ''b''
     = live_records (run_calls [AddConnection ''a'' ''b'' 5, RemoveConnection ''b'' ''a'' 9,
         AddConnection ''a'' ''b'' 7] ledger_pair_example) ''a'' ''b''
   \<and> live_records (run_calls [AddConnection ''a'' ''b'' 5, RemoveConnection ''b'' ''a'' 9,
         AddConnection ''a'' ''b'' 7] ledger_pair_example) ''a'' ''b'' = [(RemovedColl, 9)]"
proof -
  have h1: "distinct_keys ledger_pair_example"
    by (simp add: distinct_keys_def ledger_pair_example_def empty_db_def)
  have h2: "live_records ledger_pair_example ''a'' ''b'' = [(ConnectionsColl, 6)]"
    by (simp add: live_records_def ledger_pair_example_def empty_db_def between_def doc_id_def)
  have h3: "\<forall>c\<in>set [AddConnection ''a'' ''b'' 5, RemoveConnection ''b'' ''a'' 9,
         AddConnection ''a'' ''b'' 7]. on_pair ''a'' ''b'' c"
    by (simp add: on_pair_def)
  have h4: "mset [AddConnection ''a'' ''b'' 7, AddConnection ''a'' ''b'' 5, RemoveConnection ''b'' ''a'' 9]
       = mset [AddConnection ''a'' ''b'' 5, RemoveConnection ''b'' ''a'' 9, AddConnection ''a'' ''b'' 7]"
    by simp
  have h5: "\<forall>c\<in>set [AddConnection ''a'' ''b'' 5, RemoveConnection ''b'' ''a'' 9,
         AddConnection ''a'' ''b'' 7]. \<forall>c'\<in>set [AddConnection ''a'' ''b'' 5,
         RemoveConnection ''b'' ''a'' 9, AddConnection ''a'' ''b'' 7].
        (\<forall>x\<in>set [AddConnection ''a'' ''b'' 5, RemoveConnection ''b'' ''a'' 9,
         AddConnection ''a'' ''b'' 7]. call_timestamp x \<le> call_timestamp c)
        \<and> (\<forall>x\<in>set [AddConnection ''a'' ''b'' 5, RemoveConnection ''b'' ''a'' 9,
         AddConnection ''a'' ''b'' 7]. call_timestamp x \<le> call_timestamp c')
        \<longrightarrow> call_kind c = call_kind c'"
    by simp
  have r: "live_records (run_calls [AddConnection ''a'' ''b'' 5, RemoveConnection ''b'' ''a'' 9,
         AddConnection ''a'' ''b'' 7] ledger_pair_example) ''a'' ''b'' = [(RemovedColl, 9)]"
    by (simp add: ledger_eval ledger_pair_example_def)
  from arbitration_order_independent [OF h1 h3 h4 h5] h1 h2 h4 r show ?thesis by simp
qed

section \<open>Properties of user creation\<close>

lemma loadUser_None:
  "loadUser key d = None \<longleftrightarrow>
     key \<notin> set (map u_key (usersColl d))
     \<and> key \<notin> set (map (\<lambda>u. doc_id ''users'' (u_key u)) (usersColl d))"
proof (cases "filter (\<lambda>u. u_key u = key \<or> doc_id ''users'' (u_key u) = key) (usersColl d)")
  case Nil
  then have "\<forall>u\<in>set (usersColl d). \<not> (u_key u = key \<or> doc_id ''users'' (u_key u) = key)"
    by (simp add: filter_empty_conv)
  then have "key \<notin> set (map u_key (usersColl d))
     \<and> key \<notin> set (map (\<lambda>u. doc_id ''users'' (u_key u)) (usersColl d))" by auto
  with Nil show ?thesis by (simp add: loadUser_def)
next
  case (Cons u us)
  then have "u \<in> set (filter (\<lambda>u. u_key u = key \<or> doc_id ''users'' (u_key u) = key)
      (usersColl d))" by simp
  then have "u \<in> set (usersColl d)" "u_key u = key \<or> doc_id ''users'' (u_key u) = key"
    by simp_all
  then have "key \<in> set (map u_key (usersColl d))
     \<or> key \<in> set (map (\<lambda>u. doc_id ''users'' (u_key u)) (usersColl d))"
    unfolding set_map by (metis imageI)
  with Cons show ?thesis by (auto simp: loadUser_def)
qed

text \<open>
  C10. \<^verbatim>\<open>createUser\<close> returns a record only when no user with that key exists, and
  the record is then the key with score 0, the user being stored. For a key that is already
  present in the users collection, and also for the handle of a stored user, it returns no
  record: the branch reads the unbound name \<^verbatim>\<open>currents\<close> and the call ends in a
  ReferenceError. For an identifier that resolves to no user and is a legal document key the
  call succeeds.
\<close>

theorem createUser_only_new:
  "(createUser legalKey key d = Inr (d', r) \<longrightarrow>
      key \<notin> set (map u_key (usersColl d))
      \<and> key \<notin> set (map (\<lambda>u. doc_id ''users'' (u_key u)) (usersColl d))
      \<and> legalKey key
      \<and> r = \<lparr>u_key = key, u_score = 0\<rparr>
      \<and> d' = d\<lparr>usersColl := usersColl d @ [\<lparr>u_key = key, u_score = 0\<rparr>]\<rparr>)
   \<and> (key \<in> set (map u_key (usersColl d)) \<longrightarrow>
        createUser legalKey key d = Inl ReferenceError)
   \<and> (key \<in> set (map (\<lambda>u. doc_id ''users'' (u_key u)) (usersColl d)) \<longrightarrow>
        createUser legalKey key d = Inl ReferenceError)
   \<and> (key \<notin> set (map u_key (usersColl d))
        \<and> key \<notin> set (map (\<lambda>u. doc_id ''users'' (u_key u)) (usersColl d))
        \<and> legalKey key \<longrightarrow>
        createUser legalKey key d =
          Inr (d\<lparr>usersColl := usersColl d @ [\<lparr>u_key = key, u_score = 0\<rparr>]\<rparr>,
               \<lparr>u_key = key, u_score = 0\<rparr>))"
proof (cases "loadUser key d")
  case None
  then have free: "key \<notin> set (map u_key (usersColl d))
     \<and> key \<notin> set (map (\<lambda>u. doc_id ''users'' (u_key u)) (usersColl d))"
    using loadUser_None [of key d] by blast
  show ?thesis
  proof (cases "legalKey key")
    case True
    with None free show ?thesis by (auto simp: createUser_def)
  next
    case False
    with None free show ?thesis by (auto simp: createUser_def)
  qed
next
  case (Some u)
  then have "createUser legalKey key d = Inl ReferenceError"
    by (simp add: createUser_def)
  moreover have "\<not> (key \<notin> set (map u_key (usersColl d))
     \<and> key \<notin> set (map (\<lambda>u. doc_id ''users'' (u_key u)) (usersColl d)))"
    using Some loadUser_None [of key d] by simp
  ultimately show ?thesis by auto
qed

theorem createUser_only_new_witness:
  "''k2'' \<notin> set (map u_key (usersColl users_example))
   \<and> ''k2'' \<notin> set (map (\<lambda>u. doc_id ''users'' (u_key u)) (usersColl users_example))
   \<and> slash_free ''k2''
   \<and> createUser slash_free ''k2'' users_example =
        Inr (users_example\<lparr>usersColl := [\<lparr>u_key = ''k1'', u_score = 40\<rparr>,
               \<lparr>u_key = ''k2'', u_score = 0\<rparr>]\<rparr>, \<lparr>u_key = ''k2'', u_score = 0\<rparr>)
   \<and> ''k1'' \<in> set (map u_key (usersColl users_example))
   \<and> createUser slash_free ''k1'' users_example = Inl ReferenceError
   \<and> ''users/k1'' \<in> set (map (\<lambda>u. doc_id ''users'' (u_key u)) (usersColl users_example))
   \<and> createUser slash_free ''users/k1'' users_example = Inl ReferenceError"
proof -
  have u: "usersColl users_example = [\<lparr>u_key = ''k1'', u_score = 40\<rparr>]"
    by (simp add: users_example_def empty_db_def)
  have h1: "''k2'' \<notin> set (map u_key (usersColl users_example))"
    and h2: "''k2'' \<notin> set (map (\<lambda>u. doc_id ''users'' (u_key u)) (usersColl users_example))"
    and h3: "slash_free ''k2''"
    and h4: "''k1'' \<in> set (map u_key (usersColl users_example))"
    and h5: "''users/k1'' \<in> set (map (\<lambda>u. doc_id ''users'' (u_key u)) (usersColl users_example))"
    by (simp_all add: u doc_id_def slash_free_def)
  have "createUser slash_free ''k2'' users_example =
          Inr (users_example\<lparr>usersColl := usersColl users_example
                 @ [\<lparr>u_key = ''k2'', u_score = 0\<rparr>]\<rparr>, \<lparr>u_key = ''k2'', u_score = 0\<rparr>)"
    using createUser_only_new [of slash_free "''k2''" users_example users_example
        "\<lparr>u_key = ''k2'', u_score = 0\<rparr>"] h1 h2 h3 by blast
  then have r2: "createUser slash_free ''k2'' users_example =
        Inr (users_example\<lparr>usersColl := [\<lparr>u_key = ''k1'', u_score = 40\<rparr>,
               \<lparr>u_key = ''k2'', u_score = 0\<rparr>]\<rparr>, \<lparr>u_key = ''k2'', u_score = 0\<rparr>)"
    by (simp add: u)
  have r1: "createUser slash_free ''k1'' users_example = Inl ReferenceError"
    using createUser_only_new [of slash_free "''k1''" users_example users_example
        "\<lparr>u_key = ''k1'', u_score = 0\<rparr>"] h4 by blast
  have r3: "createUser slash_free ''users/k1'' users_example = Inl ReferenceError"
    using createUser_only_new [of slash_free "''users/k1''" users_example users_example
        "\<lparr>u_key = ''k1'', u_score = 0\<rparr>"] h5 by blast
  from h1 h2 h3 r2 h4 r1 h5 r3 show ?thesis by blast
qed

section \<open>Properties of revocable account links\<close>

lemma latest_newest:
  assumes keys: "distinct (map v_key coll)"
    and newest: "\<forall>u\<in>set coll. \<forall>w\<in>set coll.
        v_user u = v_user w \<and> newest_link coll u \<and> newest_link coll w \<longrightarrow> u = w"
    and u2: "u2 \<in> set coll"
  shows "(case latest coll u2 of [] \<Rightarrow> False | k # _ \<Rightarrow> k = v_key u2)
     \<longleftrightarrow> newest_link coll u2"
proof -
  let ?own = "filter (\<lambda>u3. v_user u3 = v_user u2) coll"
  let ?h = "hd (sort_key (\<lambda>u3. - v_timestamp u3) ?own)"
  have ne: "?own \<noteq> []" using u2 by (auto simp: filter_empty_conv)
  then have sne: "sort_key (\<lambda>u3. - v_timestamp u3) ?own \<noteq> []" by (metis set_empty set_sort)
  from hd_sort_key_least [OF ne, of "\<lambda>u3. - v_timestamp u3"]
  have h_in: "?h \<in> set coll" and h_user: "v_user ?h = v_user u2"
    and h_top: "\<forall>w\<in>set coll. v_user w = v_user u2 \<longrightarrow> v_timestamp w \<le> v_timestamp ?h"
    by auto
  have h_newest: "newest_link coll ?h"
    unfolding newest_link_def using h_top h_user by simp
  have lat: "latest coll u2 = [v_key ?h]"
    unfolding latest_def using sne
    by (cases "sort_key (\<lambda>u3. - v_timestamp u3) ?own") simp_all
  have key_eq: "v_key ?h = v_key u2 \<longleftrightarrow> ?h = u2"
    using keys h_in u2 by (auto simp: distinct_map inj_on_def)
  show ?thesis
  proof
    assume "case latest coll u2 of [] \<Rightarrow> False | k # _ \<Rightarrow> k = v_key u2"
    then have "?h = u2" using lat key_eq by simp
    with h_newest show "newest_link coll u2" by simp
  next
    assume "newest_link coll u2"
    with newest h_in u2 h_user h_newest have "?h = u2" by blast
    then show "case latest coll u2 of [] \<Rightarrow> False | k # _ \<Rightarrow> k = v_key u2"
      using lat by simp
  qed
qed

text \<open>
  C6. A link is the newest of its user when no link of that user has a later timestamp. In a
  collection of links with distinct keys where every user has one newest link (older links
  may share timestamps), \<^verbatim>\<open>revocableIds\<close> called with an account id (the user's current
  one) returns an account id \<open>X\<close> exactly when \<open>X\<close> differs from that id, the user has a
  link to \<open>X\<close>, and no other user's newest link points to \<open>X\<close>.
\<close>

theorem revocableIds_iff:
  assumes keys: "distinct (map v_key coll)"
    and newest: "\<forall>u\<in>set coll. \<forall>w\<in>set coll.
        v_user u = v_user w \<and> newest_link coll u \<and> newest_link coll w \<longrightarrow> u = w"
  shows "X \<in> set (revocableIds coll aid user) \<longleftrightarrow>
     X \<noteq> aid \<and> (\<exists>u\<in>set coll. v_user u = user \<and> v_account u = X)
     \<and> \<not> (\<exists>v\<in>set coll. v_user v \<noteq> user \<and> v_account v = X \<and> newest_link coll v)"
proof -
  have use: "inUse coll u = [] \<longleftrightarrow>
     \<not> (\<exists>v\<in>set coll. v_user v \<noteq> v_user u \<and> v_account v = v_account u
           \<and> newest_link coll v)" for u
    unfolding inUse_Nil using latest_newest [OF keys newest] by blast
  have "X \<in> set (revocableIds coll aid user) \<longleftrightarrow>
     (\<exists>u\<in>set coll. v_account u = X \<and> v_account u \<noteq> aid \<and> v_user u = user \<and> inUse coll u = [])"
    unfolding revocableIds_def by auto
  also have "\<dots> \<longleftrightarrow> X \<noteq> aid \<and> (\<exists>u\<in>set coll. v_user u = user \<and> v_account u = X)
     \<and> \<not> (\<exists>v\<in>set coll. v_user v \<noteq> user \<and> v_account v = X \<and> newest_link coll v)"
    unfolding use by auto
  finally show ?thesis .
qed

lemma unique_newest_examples:
  "list_all (\<lambda>u. list_all (\<lambda>w.
      v_user u = v_user w \<and> newest_link links_in_use u \<and> newest_link links_in_use w
        \<longrightarrow> u = w) links_in_use) links_in_use"
  "list_all (\<lambda>u. list_all (\<lambda>w.
      v_user u = v_user w \<and> newest_link links_abandoned u \<and> newest_link links_abandoned w
        \<longrightarrow> u = w) links_abandoned) links_abandoned"
  "list_all (\<lambda>u. list_all (\<lambda>w.
      v_user u = v_user w \<and> newest_link links_low_tie u \<and> newest_link links_low_tie w
        \<longrightarrow> u = w) links_low_tie) links_low_tie"
  by (simp_all add: newest_link_def links_in_use_def links_abandoned_def links_low_tie_def)

theorem revocableIds_iff_witness:
  "distinct (map v_key links_in_use)
   \<and> list_all (\<lambda>u. list_all (\<lambda>w.
        v_user u = v_user w \<and> newest_link links_in_use u \<and> newest_link links_in_use w
          \<longrightarrow> u = w) links_in_use) links_in_use
   \<and> ''X'' \<notin> set (revocableIds links_in_use ''Y'' ''U'')
   \<and> distinct (map v_key links_abandoned)
   \<and> list_all (\<lambda>u. list_all (\<lambda>w.
        v_user u = v_user w \<and> newest_link links_abandoned u \<and> newest_link links_abandoned w
          \<longrightarrow> u = w) links_abandoned) links_abandoned
   \<and> ''X'' \<in> set (revocableIds links_abandoned ''Y'' ''U'')
   \<and> distinct (map v_key links_low_tie)
   \<and> list_all (\<lambda>u. list_all (\<lambda>w.
        v_user u = v_user w \<and> newest_link links_low_tie u \<and> newest_link links_low_tie w
          \<longrightarrow> u = w) links_low_tie) links_low_tie
   \<and> ''X'' \<in> set (revocableIds links_low_tie ''Y'' ''U'')
   \<and> ''Q'' \<in> set (revocableIds links_low_tie ''Y'' ''U'')
   \<and> ''Y'' \<notin> set (revocableIds links_low_tie ''Y'' ''U'')"
proof -
  have k1: "distinct (map v_key links_in_use)" by (simp add: links_in_use_def)
  have k2: "distinct (map v_key links_abandoned)" by (simp add: links_abandoned_def)
  have k3: "distinct (map v_key links_low_tie)" by (simp add: links_low_tie_def)
  note n = unique_newest_examples
  have s1: "\<forall>u\<in>set links_in_use. \<forall>w\<in>set links_in_use.
        v_user u = v_user w \<and> newest_link links_in_use u \<and> newest_link links_in_use w
          \<longrightarrow> u = w"
    using n(1) unfolding list_all_iff .
  have s2: "\<forall>u\<in>set links_abandoned. \<forall>w\<in>set links_abandoned.
        v_user u = v_user w \<and> newest_link links_abandoned u \<and> newest_link links_abandoned w
          \<longrightarrow> u = w"
    using n(2) unfolding list_all_iff .
  have s3: "\<forall>u\<in>set links_low_tie. \<forall>w\<in>set links_low_tie.
        v_user u = v_user w \<and> newest_link links_low_tie u \<and> newest_link links_low_tie w
          \<longrightarrow> u = w"
    using n(3) unfolding list_all_iff .
  have a: "''X'' \<notin> set (revocableIds links_in_use ''Y'' ''U'')"
    unfolding revocableIds_iff [OF k1 s1] by (simp add: newest_link_def links_in_use_def)
  have b: "''X'' \<in> set (revocableIds links_abandoned ''Y'' ''U'')"
    unfolding revocableIds_iff [OF k2 s2] by (simp add: newest_link_def links_abandoned_def)
  have c: "''X'' \<in> set (revocableIds links_low_tie ''Y'' ''U'')"
    unfolding revocableIds_iff [OF k3 s3] by (simp add: newest_link_def links_low_tie_def)
  have d: "''Q'' \<in> set (revocableIds links_low_tie ''Y'' ''U'')"
    unfolding revocableIds_iff [OF k3 s3] by (simp add: newest_link_def links_low_tie_def)
  have e: "''Y'' \<notin> set (revocableIds links_low_tie ''Y'' ''U'')"
    unfolding revocableIds_iff [OF k3 s3] by simp
  from k1 n(1) a k2 n(2) b k3 n(3) c d e show ?thesis by blast
qed

text \<open>
  When a user has two newest links the query's \<^verbatim>\<open>SORT .. LIMIT 1\<close> picks one of them,
  and which one is not fixed by the timestamps. With the stable sort taken here the same links
  in two storage orders give two answers.
\<close>

lemma revocableIds_tie_order:
  "mset links_tie_a = mset links_tie_b
   \<and> revocableIds links_tie_a ''Y'' ''U'' = [''X'']
   \<and> revocableIds links_tie_b ''Y'' ''U'' = []"
  by (simp add: revocableIds_def inUse_def latest_def links_tie_a_def links_tie_b_def)

section \<open>The eligibility rule on the stored edges\<close>

lemma set_groupMembers:
  assumes "\<forall>e\<in>set (usersInGroupsColl d). prefix ''users/'' (e_from e)"
  shows "set (groupMembers groupId False d) = members_of d groupId"
proof (rule set_eqI)
  fix k
  let ?es = "filter (\<lambda>i. e_to i = doc_id ''groups'' groupId) (usersInGroupsColl d)"
  have gm: "set (groupMembers groupId False d)
      = (\<lambda>m. str_replace m ''users/'' []) ` e_from ` set ?es"
    unfolding groupMembers_def Let_def by (simp only: if_False set_map set_uniq)
  show "k \<in> set (groupMembers groupId False d) \<longleftrightarrow> k \<in> members_of d groupId"
  proof
    assume "k \<in> set (groupMembers groupId False d)"
    then obtain e where e: "e \<in> set ?es" "k = str_replace (e_from e) ''users/'' []"
      unfolding gm by blast
    then have e_in: "e \<in> set (usersInGroupsColl d)" "e_to e = doc_id ''groups'' groupId"
      by simp_all
    with assms obtain k' where k': "e_from e = doc_id ''users'' k'"
      unfolding prefix_users_doc_id by blast
    with e(2) have "k = k'" by (simp add: str_replace_doc_id)
    with k' e_in show "k \<in> members_of d groupId" unfolding members_of_def by blast
  next
    assume "k \<in> members_of d groupId"
    then obtain e where e: "e \<in> set (usersInGroupsColl d)"
      "e_to e = doc_id ''groups'' groupId" "e_from e = doc_id ''users'' k"
      unfolding members_of_def by blast
    then have "e \<in> set ?es" by simp
    then have "str_replace (e_from e) ''users/'' [] \<in> set (groupMembers groupId False d)"
      unfolding gm by blast
    then show "k \<in> set (groupMembers groupId False d)"
      unfolding e(3) str_replace_doc_id .
  qed
qed

lemma set_userConnections:
  assumes "\<forall>e\<in>set (connectionsColl d).
      prefix ''users/'' (e_from e) \<and> prefix ''users/'' (e_to e)"
  shows "set (userConnections userId d) = connections_of d userId"
  using userConnections_connected [OF assms, of _ userId]
  unfolding connections_of_def connected_def by blast

text \<open>
  C2. The members of a group are the users with a membership edge to the group's handle, and
  the connections of a user are the users joined to the user by a connection edge, in either
  direction. In a store whose edges carry user handles at their user ends, as all edges the
  code writes do, \<^verbatim>\<open>isEligible\<close> returns true exactly when twice the number of the
  user's connections that are members of the group is strictly above the number of members.
  With 4 members, 2 matching connections are rejected and 3 are accepted.
\<close>

theorem isEligible_majority:
  assumes members: "\<forall>e\<in>set (usersInGroupsColl d). prefix ''users/'' (e_from e)"
    and handles: "\<forall>e\<in>set (connectionsColl d).
      prefix ''users/'' (e_from e) \<and> prefix ''users/'' (e_to e)"
  shows "(isEligible groupId userId d \<longleftrightarrow>
            2 * card (connections_of d userId \<inter> members_of d groupId)
              > card (members_of d groupId))
       \<and> (card (members_of d groupId) = 4
            \<and> card (connections_of d userId \<inter> members_of d groupId) = 2
          \<longrightarrow> \<not> isEligible groupId userId d)
       \<and> (card (members_of d groupId) = 4
            \<and> card (connections_of d userId \<inter> members_of d groupId) = 3
          \<longrightarrow> isEligible groupId userId d)"
proof -
  note m = set_groupMembers [OF members, of groupId]
  note c = set_userConnections [OF handles, of userId]
  have len: "length (groupMembers groupId False d) = card (members_of d groupId)"
    using distinct_groupMembers [OF members, of groupId] m by (metis distinct_card)
  have iff: "isEligible groupId userId d \<longleftrightarrow>
            2 * card (connections_of d userId \<inter> members_of d groupId)
              > card (members_of d groupId)"
    unfolding isEligible_def Let_def length_intersection len c m by (simp add: mult.commute)
  show ?thesis unfolding iff by simp
qed

theorem isEligible_majority_witness:
  "list_all (\<lambda>e. prefix ''users/'' (e_from e)) (usersInGroupsColl eligible_example)
   \<and> list_all (\<lambda>e. prefix ''users/'' (e_from e) \<and> prefix ''users/'' (e_to e))
        (connectionsColl eligible_example)
   \<and> members_of eligible_example ''g'' = {''m1'', ''m2'', ''m3'', ''m4''}
   \<and> connections_of eligible_example ''u'' = {''m1'', ''m2''}
   \<and> \<not> isEligible ''g'' ''u'' eligible_example
   \<and> connections_of eligible_example ''w'' = {''m1'', ''m2'', ''x'', ''m3''}
   \<and> isEligible ''g'' ''w'' eligible_example"
proof -
  have h1: "\<forall>e\<in>set (usersInGroupsColl eligible_example). prefix ''users/'' (e_from e)"
    by (simp add: eligible_example_def empty_db_def)
  have h2: "\<forall>e\<in>set (connectionsColl eligible_example).
      prefix ''users/'' (e_from e) \<and> prefix ''users/'' (e_to e)"
    by (simp add: eligible_example_def empty_db_def)
  have m: "members_of eligible_example ''g'' = {''m1'', ''m2'', ''m3'', ''m4''}"
    unfolding set_groupMembers [OF h1, symmetric] eligible_example_members by simp
  have u: "connections_of eligible_example ''u'' = {''m1'', ''m2''}"
    unfolding set_userConnections [OF h2, symmetric] eligible_example_u by simp
  have w: "connections_of eligible_example ''w'' = {''m1'', ''m2'', ''x'', ''m3''}"
    unfolding set_userConnections [OF h2, symmetric] eligible_example_w by simp
  have cm: "card (members_of eligible_example ''g'') = 4" unfolding m by simp
  have "connections_of eligible_example ''u'' \<inter> members_of eligible_example ''g''
      = {''m1'', ''m2''}" unfolding m u by auto
  then have cu: "card (connections_of eligible_example ''u''
      \<inter> members_of eligible_example ''g'') = 2" by simp
  have "connections_of eligible_example ''w'' \<inter> members_of eligible_example ''g''
      = {''m1'', ''m2'', ''m3''}" unfolding m w by auto
  then have cw: "card (connections_of eligible_example ''w''
      \<inter> members_of eligible_example ''g'') = 3" by simp
  have nu: "\<not> isEligible ''g'' ''u'' eligible_example"
    using isEligible_majority [OF h1 h2, of "''g''" "''u''"] cm cu by blast
  have ew: "isEligible ''g'' ''w'' eligible_example"
    using isEligible_majority [OF h1 h2, of "''g''" "''w''"] cm cw by blast
  from h1 h2 m u nu w ew show ?thesis unfolding list_all_iff by blast
qed

end
